(* ===== verification/Prelude.thy ===== *)
theory Prelude
  imports Complex_Main "HOL-Library.Word"
begin

text \<open>
  Shared material of the development: the machine types of the C sources, byte order,
  fact collections, the generic executors (bounded runs of a step function, metered
  accumulation) and the interfaces (locales) that several components implement or rely on.

  The hosts the program is built for (x86_64 and ARM, see the build files) are little
  endian, so every host-to-network conversion of a 16, 32 or 64 bit value is a byte swap.
\<close>

unbundle bit_operations_syntax

section \<open>Machine types\<close>

type_synonym u8 = "8 word"
type_synonym u16 = "16 word"
type_synonym u32 = "32 word"
type_synonym u64 = "64 word"

text \<open>Addresses are 64 bit values; \<open>NULL\<close> is 0.\<close>

type_synonym ptr = "64 word"

abbreviation (input) NULL :: ptr where
  "NULL \<equiv> 0"

named_theorems frame_simps
named_theorems inv_intros

section \<open>Byte order\<close>

definition bswap16 :: "u16 \<Rightarrow> u16" where
  "bswap16 x = (push_bit 8 x OR drop_bit 8 x)"

definition bswap32 :: "u32 \<Rightarrow> u32" where
  "bswap32 x =
     (push_bit 24 x OR (push_bit 8 x AND 0xFF0000)
       OR (drop_bit 8 x AND 0xFF00) OR drop_bit 24 x)"

definition bswap64 :: "u64 \<Rightarrow> u64" where
  "bswap64 x =
     (push_bit 32 (ucast (bswap32 (ucast x))) OR ucast (bswap32 (ucast (drop_bit 32 x))))"

lemma bswap16_bswap16 [simp]: "bswap16 (bswap16 x) = x"
  unfolding bswap16_def by (rule bit_word_eqI) (auto simp: bit_simps)

lemma bswap16_inject [simp]: "bswap16 x = bswap16 y \<longleftrightarrow> x = y"
  by (metis bswap16_bswap16)

section \<open>Lists, minima and words\<close>

lemma unat_min_word: "unat (min a b) = min (unat a) (unat b)" for a b :: "'a::len word"
  by (auto simp: min_def word_le_nat_alt)

lemma unat_up_ucast:
  fixes w :: "'a::len word"
  assumes "LENGTH('a) \<le> LENGTH('b::len)"
  shows "unat (ucast w :: 'b word) = unat w"
proof -
  have "unat w < 2 ^ LENGTH('b)"
    using less_le_trans [OF unsigned_less power_increasing [OF assms]] by simp
  then show ?thesis by (simp add: unsigned_ucast_eq take_bit_nat_eq_self)
qed

lemma take_drop_append: "take n (drop k xs) @ drop (k + n) xs = drop k xs"
  by (metis add.commute append_take_drop_id drop_drop)

lemma length_filter_update:
  "i < length xs \<Longrightarrow>
     length (filter P (xs[i := y])) + (if P (xs ! i) then 1 else 0)
       = length (filter P xs) + (if P y then 1 else 0)"
proof (induction xs arbitrary: i)
  case (Cons a xs)
  then show ?case by (cases i) (auto split: if_splits)
qed simp

text \<open>Bytes written at the start of a buffer; \<open>None\<close> is a write past its end.\<close>

definition fill :: "u8 list \<Rightarrow> u8 list \<Rightarrow> u8 list option" where
  "fill bs buf = (if length bs \<le> length buf then Some (bs @ drop (length bs) buf) else None)"

lemma fill_Some: "fill bs buf = Some b \<longleftrightarrow> length bs \<le> length buf \<and> b = bs @ drop (length bs) buf"
  by (auto simp: fill_def)

section \<open>Runs of a step function\<close>

text \<open>\<open>None\<close> is an abort (a failed assertion or a use of memory the code does not own);
  a run stops at the first one.\<close>

fun run_steps :: "('e \<Rightarrow> 's \<Rightarrow> 's option) \<Rightarrow> 'e list \<Rightarrow> 's \<Rightarrow> 's option" where
  "run_steps f [] s = Some s"
| "run_steps f (e # es) s = (case f e s of None \<Rightarrow> None | Some s' \<Rightarrow> run_steps f es s')"

lemma run_steps_append:
  "run_steps f (xs @ ys) s = (case run_steps f xs s of None \<Rightarrow> None | Some s' \<Rightarrow> run_steps f ys s')"
  by (induction xs arbitrary: s) (auto split: option.splits)

text \<open>A component whose operations keep an invariant.\<close>

locale guarded_machine =
  fixes trans_fn :: "'e \<Rightarrow> 's \<Rightarrow> 's option"
    and inv :: "'s \<Rightarrow> bool"
    and okev :: "'e \<Rightarrow> 's \<Rightarrow> bool"
  assumes step_inv: "inv s \<Longrightarrow> okev e s \<Longrightarrow> trans_fn e s = Some s' \<Longrightarrow> inv s'"
begin

inductive reach :: "'s \<Rightarrow> 's \<Rightarrow> bool" for s0 where
  start: "reach s0 s0"
| move: "reach s0 s \<Longrightarrow> okev e s \<Longrightarrow> trans_fn e s = Some s' \<Longrightarrow> reach s0 s'"

lemma reach_inv: "reach s0 s \<Longrightarrow> inv s0 \<Longrightarrow> inv s"
  by (induction rule: reach.induct) (auto intro: step_inv)

lemma run_inv:
  assumes "inv s" and "\<And>e t. e \<in> set es \<Longrightarrow> okev e t" and "run_steps trans_fn es s = Some s'"
  shows "inv s'"
  using assms
proof (induction es arbitrary: s)
  case (Cons e es)
  then obtain t where t: "trans_fn e s = Some t" and rest: "run_steps trans_fn es t = Some s'"
    by (auto split: option.splits)
  have "inv t" using Cons.prems(1,2) t by (auto intro: step_inv)
  then show ?case using Cons.IH Cons.prems(2) rest by simp
qed simp

end

section \<open>Metered accumulation\<close>

text \<open>
  A rate meter adds each input to an open window and now and then closes the window: it
  hands out what the window holds and starts a new one from zero. Both meters of the
  program (\<open>record\<close> of \<open>status.h\<close> and the datagram statistics of the VCL test server)
  follow this contract.
\<close>

fun meter_run :: "('i \<Rightarrow> 's \<Rightarrow> 'w option \<times> 's) \<Rightarrow> 'i list \<Rightarrow> 's \<Rightarrow> 'w list \<times> 's" where
  "meter_run f [] s = ([], s)"
| "meter_run f (i # is) s =
     (case f i s of
        (None, s') \<Rightarrow> meter_run f is s'
      | (Some w, s') \<Rightarrow> (case meter_run f is s' of (ws, s'') \<Rightarrow> (w # ws, s'')))"

locale rate_meter =
  fixes tick :: "'i \<Rightarrow> 's \<Rightarrow> u64 option \<times> 's"
    and level :: "'s \<Rightarrow> u64"
    and amount :: "'i \<Rightarrow> u64"
    and wf :: "'s \<Rightarrow> bool"
  assumes stays_open: "wf s \<Longrightarrow> tick i s = (None, s') \<Longrightarrow> level s' = level s + amount i"
    and closes: "wf s \<Longrightarrow> tick i s = (Some w, s') \<Longrightarrow> w = level s + amount i \<and> level s' = 0"
    and keeps_wf: "wf s \<Longrightarrow> tick i s = (r, s') \<Longrightarrow> wf s'"
begin

lemma conserved:
  assumes "wf s" and "meter_run tick is s = (ws, s')"
  shows "sum_list ws + level s' = level s + sum_list (map amount is)"
  using assms
proof (induction "is" arbitrary: s ws)
  case (Cons i "is")
  obtain r t where t: "tick i s = (r, t)" by (metis surj_pair)
  have wt: "wf t" using keeps_wf Cons.prems(1) t by blast
  show ?case
  proof (cases r)
    case None
    with Cons.IH [OF wt] Cons.prems t stays_open [of s i t] show ?thesis
      by (simp add: algebra_simps)
  next
    case (Some w)
    with Cons.prems t obtain ws' where ws: "ws = w # ws'" "meter_run tick is t = (ws', s')"
      by (auto split: prod.splits)
    from Some Cons.prems t have "w = level s + amount i" "level t = 0"
      using closes [of s i w t] by auto
    with Cons.IH [OF wt ws(2)] ws(1) show ?thesis by (simp add: algebra_simps)
  qed
qed simp

lemma run_wf: "wf s \<Longrightarrow> meter_run tick is s = (ws, s') \<Longrightarrow> wf s'"
proof (induction "is" arbitrary: s ws)
  case (Cons i "is")
  obtain r t where t: "tick i s = (r, t)" by (metis surj_pair)
  have wt: "wf t" using keeps_wf Cons.prems(1) t by blast
  show ?case using Cons.IH [OF wt] Cons.prems(2) t
    by (auto split: option.splits prod.splits)
qed simp

end

section \<open>Slot pools\<close>

text \<open>
  A pool hands out slots by index. \<open>live\<close> are the slots in use, \<open>elts\<close> their number;
  \<open>get\<close> may fail and otherwise returns a slot that was not in use, \<open>put\<close> gives a slot
  back, and neither touches what another slot holds. The VCL test server implements this
  interface itself (its connection pool); the session pool of udp-echo comes from the VPP
  infrastructure library, and what is proved about it takes these laws as a hypothesis.
\<close>

locale slot_pool =
  fixes live :: "'p \<Rightarrow> nat \<Rightarrow> bool"
    and elts :: "'p \<Rightarrow> nat"
    and elt :: "'p \<Rightarrow> nat \<Rightarrow> 'e"
    and get :: "'p \<Rightarrow> (nat \<times> 'p) option"
    and put :: "'p \<Rightarrow> nat \<Rightarrow> 'p"
    and valid :: "'p \<Rightarrow> bool"
  assumes get_valid: "valid p \<Longrightarrow> get p = Some (i, p') \<Longrightarrow> valid p'"
    and get_fresh: "valid p \<Longrightarrow> get p = Some (i, p') \<Longrightarrow> \<not> live p i"
    and get_live: "valid p \<Longrightarrow> get p = Some (i, p') \<Longrightarrow> live p' j \<longleftrightarrow> j = i \<or> live p j"
    and get_elt: "valid p \<Longrightarrow> get p = Some (i, p') \<Longrightarrow> live p j \<Longrightarrow> elt p' j = elt p j"
    and get_elts: "valid p \<Longrightarrow> get p = Some (i, p') \<Longrightarrow> elts p' = Suc (elts p)"
    and put_valid: "valid p \<Longrightarrow> live p i \<Longrightarrow> valid (put p i)"
    and put_live: "valid p \<Longrightarrow> live p i \<Longrightarrow> live (put p i) j \<longleftrightarrow> j \<noteq> i \<and> live p j"
    and put_elt: "valid p \<Longrightarrow> live p i \<Longrightarrow> j \<noteq> i \<Longrightarrow> elt (put p i) j = elt p j"
    and put_elts: "valid p \<Longrightarrow> live p i \<Longrightarrow> Suc (elts (put p i)) = elts p"
begin

lemma get_put_elts:
  "valid p \<Longrightarrow> get p = Some (i, p') \<Longrightarrow> elts (put p' i) = elts p"
  using get_valid get_live get_elts put_elts [of p' i] by fastforce

lemma get_put_live:
  "valid p \<Longrightarrow> get p = Some (i, p') \<Longrightarrow> live (put p' i) j \<longleftrightarrow> live p j"
  using get_valid get_live get_fresh put_live by metis

lemma get_distinct:
  "valid p \<Longrightarrow> get p = Some (i, p') \<Longrightarrow> get p' = Some (j, p'') \<Longrightarrow> i \<noteq> j"
  using get_valid get_live get_fresh by metis

end

text \<open>
  A pool whose contents can be written: \<open>upd p i f\<close> writes slot \<open>i\<close>, \<open>okupd f\<close> says that
  the write leaves the slot's own header (its in-use mark) alone.
\<close>

locale slot_store = slot_pool +
  fixes upd :: "'a \<Rightarrow> nat \<Rightarrow> ('b \<Rightarrow> 'b) \<Rightarrow> 'a"
    and okupd :: "('b \<Rightarrow> 'b) \<Rightarrow> bool"
  assumes upd_valid: "valid p \<Longrightarrow> okupd f \<Longrightarrow> valid (upd p i f)"
    and upd_live: "valid p \<Longrightarrow> okupd f \<Longrightarrow> live (upd p i f) j \<longleftrightarrow> live p j"
    and upd_elts: "valid p \<Longrightarrow> okupd f \<Longrightarrow> elts (upd p i f) = elts p"
    and upd_same: "valid p \<Longrightarrow> okupd f \<Longrightarrow> live p i \<Longrightarrow> elt (upd p i f) i = f (elt p i)"
    and upd_other: "valid p \<Longrightarrow> okupd f \<Longrightarrow> j \<noteq> i \<Longrightarrow> elt (upd p i f) j = elt p j"
begin

lemma upd_elt:
  "valid p \<Longrightarrow> okupd f \<Longrightarrow> live p i \<Longrightarrow>
     elt (upd p i f) j = (if j = i then f (elt p i) else elt p j)"
  using upd_same upd_other by simp

end

end
