(* ===== verification/CText.thy ===== *)
theory CText
  imports Prelude
begin

text \<open>
  Numbers in text, as the C library reads them in the programs' arguments (\<open>sscanf\<close> with \<open>%d\<close>,
  \<open>atoi\<close>) and prints them. A number is taken to fit the \<open>int\<close> it is read into.
\<close>

section \<open>Reading\<close>

definition is_digit :: "char \<Rightarrow> bool" where
  "is_digit c \<longleftrightarrow> of_char c \<ge> (48 :: nat) \<and> of_char c \<le> (57 :: nat)"

fun digits_val :: "int \<Rightarrow> string \<Rightarrow> int" where
  "digits_val a [] = a"
| "digits_val a (c # cs) = (if is_digit c then digits_val (10 * a + (of_char c - 48)) cs else a)"

fun skip_space :: "string \<Rightarrow> string" where
  "skip_space [] = []"
| "skip_space (c # cs) = 
     (if c = CHR '' '' \<or> of_char c \<ge> (9 :: nat) \<and> of_char c \<le> (13 :: nat) then skip_space cs else c # cs)"

text \<open>\<open>sscanf(s, "%d", &v)\<close> (the number, if there is one) and \<open>atoi\<close> (0 without one).\<close>

definition scan_int :: "string \<Rightarrow> int option" where
  "scan_int s =
     (case skip_space s of
        [] \<Rightarrow> None
      | c # cs \<Rightarrow>
          if c = CHR ''-'' \<or> c = CHR ''+'' then
            (case cs of
               [] \<Rightarrow> None
             | d # _ \<Rightarrow>
                 if is_digit d then Some (if c = CHR ''-'' then - digits_val 0 cs else digits_val 0 cs) else None)
          else if is_digit c then Some (digits_val 0 (c # cs)) else None)"

definition atoi :: "string \<Rightarrow> int" where
  "atoi s = (case scan_int s of None \<Rightarrow> 0 | Some v \<Rightarrow> v)"

section \<open>Printing\<close>

text \<open>Decimal notation.\<close>

fun dec :: "nat \<Rightarrow> string" where
  "dec n = (if n < 10 then [char_of (48 + n)] else dec (n div 10) @ [char_of (48 + n mod 10)])"

declare dec.simps [simp del]

lemma digit_char: "d < 10 \<Longrightarrow> is_digit (char_of (48 + d)) \<and> (of_char (char_of (48 + d) :: char) :: int) = 48 + int d"
proof -
  assume "d < 10"
  then have n: "of_char (char_of (48 + d) :: char) = (48 + d :: nat)" by simp
  have "(of_char (char_of (48 + d) :: char) :: int) = int (of_char (char_of (48 + d) :: char))"
    by (simp only: of_nat_of_char)
  with n \<open>d < 10\<close> show ?thesis by (simp add: is_digit_def)
qed

lemma digits_val_append:
  "list_all is_digit xs \<Longrightarrow> digits_val a (xs @ ys) = digits_val (digits_val a xs) ys"
  by (induction xs arbitrary: a) auto

lemma dec_digits: "list_all is_digit (dec n) \<and> digits_val 0 (dec n) = int n \<and> dec n \<noteq> []"
proof (induction n rule: dec.induct)
  case (1 n)
  show ?case
  proof (cases "n < 10")
    case True
    then show ?thesis using digit_char [of n] by (simp add: dec.simps)
  next
    case False
    have "10 * int (n div 10) + int (n mod 10) = int n" by (simp add: of_nat_div of_nat_mod)
    with False show ?thesis
      using 1 digit_char [of "n mod 10"] by (simp add: dec.simps [of n] digits_val_append del: of_nat_mod of_nat_div)
  qed
qed

lemma scan_dec: "scan_int (dec n) = Some (int n)"
proof -
  obtain c cs where c: "dec n = c # cs" using dec_digits [of n] by (cases "dec n") auto
  then have d: "is_digit c" using dec_digits [of n] by simp
  then have "c \<noteq> CHR '' ''" "\<not> of_char c \<le> (13 :: nat)" "c \<noteq> CHR ''-''" "c \<noteq> CHR ''+''"
    by (auto simp: is_digit_def)
  then show ?thesis using c d dec_digits [of n] by (simp add: scan_int_def)
qed

lemma atoi_dec: "atoi (dec n) = int n"
  by (simp add: atoi_def scan_dec)

end
