(* ===== verification/Status.thy ===== *)
theory Status
  imports Prelude
begin

text \<open>
  The throughput meter of \<open>src/src/status.h\<close>: the function \<open>record\<close>, the macros \<open>FEQ\<close>
  and \<open>RECORD\<close>. A row is the C array \<open>u64 status[2 * STATUS_ALL + 1]\<close>; the odd cells are
  the open window, the even ones the last closed window, the last cell the time it was
  closed. What the function reads from the machine is a parameter: \<open>now1\<close> and \<open>now2\<close> are
  its two readings of \<open>NOW\<close>, \<open>freq\<close> the clock frequency. What it prints is returned.
\<close>

section \<open>Rows and printing\<close>

abbreviation (input) STATUS_CALL :: nat where "STATUS_CALL \<equiv> 0"
abbreviation (input) STATUS_PPS :: nat where "STATUS_PPS \<equiv> 1"
abbreviation (input) STATUS_BYTES :: nat where "STATUS_BYTES \<equiv> 2"
abbreviation (input) STATUS_ALL :: nat where "STATUS_ALL \<equiv> 3"

text \<open>The macro \<open>_(data, tag1, tag2)\<close>: the unit letter and the number printed.\<close>

datatype magnitude = Giga | Mega | Kilo | Plain

definition human :: "u64 \<Rightarrow> magnitude \<times> rat" where
  "human data =
     (if data > 1024 * 1024 * 1024 then (Giga, of_nat (unat data) / (1024 * 1024 * 1024))
      else if data > 1024 * 1024 then (Mega, of_nat (unat data) / (1024 * 1024))
      else if data > 1024 then (Kilo, of_nat (unat data) / 1024)
      else (Plain, of_nat (unat data)))"

record report =
  r_speed :: "magnitude \<times> rat"
  r_calls :: "magnitude \<times> rat"
  r_pps :: "magnitude \<times> rat"

section \<open>The operations\<close>

definition add_cell :: "nat \<Rightarrow> u64 \<Rightarrow> u64 list \<Rightarrow> u64 list" where
  "add_cell k v row = row[k := row ! k + v]"

definition record_row :: "u64 \<Rightarrow> u64 \<Rightarrow> u64 \<Rightarrow> u64 list \<Rightarrow> u32 \<Rightarrow> u32 \<Rightarrow> u64 list \<times> report option" where
  "record_row now1 freq now2 row bytes pps =
     (let row = add_cell (2 * STATUS_BYTES + 1) (ucast bytes) row;
          row = add_cell (2 * STATUS_PPS + 1) (ucast pps) row;
          row = add_cell (2 * STATUS_CALL + 1) 1 row
      in if now1 - row ! (2 * STATUS_ALL) < freq then (row, None)
         else
           (let row = row[2 * STATUS_BYTES := row ! (2 * STATUS_BYTES + 1) * 8];
                row = row[2 * STATUS_PPS := row ! (2 * STATUS_PPS + 1)];
                row = row[2 * STATUS_CALL := row ! (2 * STATUS_CALL + 1)];
                row = row[2 * STATUS_BYTES + 1 := 0];
                row = row[2 * STATUS_PPS + 1 := 0];
                row = row[2 * STATUS_CALL + 1 := 0];
                row = row[2 * STATUS_ALL := now2]
            in (row, Some \<lparr>r_speed = human (row ! (2 * STATUS_BYTES)),
                           r_calls = human (row ! (2 * STATUS_CALL)),
                           r_pps = human (row ! (2 * STATUS_PPS))\<rparr>)))"

text \<open>\<open>FEQ\<close> keeps the frequency in a static variable once it has read a non-zero one: the
  result is the value used and the variable's new content.\<close>

definition FEQ :: "u64 \<Rightarrow> u64 \<Rightarrow> u64 \<times> u64" where
  "FEQ os_freq f = (let f = (if f = 0 then os_freq else f) in (f, f))"

record meter =
  feq_cache :: u64
  rows :: "u64 list list"

text \<open>What one call reads from the machine.\<close>

record reading =
  now1 :: u64
  now2 :: u64
  os_freq :: u64

definition record_fn :: "reading \<Rightarrow> u64 \<Rightarrow> u64 list \<Rightarrow> u32 \<Rightarrow> u32 \<Rightarrow> u64 \<times> u64 list \<times> report option" where
  "record_fn rd cache row bytes pps =
     (case FEQ (os_freq rd) cache of
        (freq, cache') \<Rightarrow> (cache', record_row (now1 rd) freq (now2 rd) row bytes pps))"

text \<open>\<open>RECORD\<close> indexes a table of 20 rows by the thread's number; an index past the table
  is a write outside it, modelled as \<open>None\<close>.\<close>

definition RECORD :: "nat \<Rightarrow> reading \<Rightarrow> u32 \<Rightarrow> u32 \<Rightarrow> meter \<Rightarrow> (meter \<times> report option) option" where
  "RECORD tidx rd bytes pps m =
     (if tidx < length (rows m) then
        (case record_fn rd (feq_cache m) (rows m ! tidx) bytes pps of
           (cache, row, rep) \<Rightarrow>
             Some (m\<lparr>feq_cache := cache, rows := (rows m)[tidx := row]\<rparr>, rep))
      else None)"

definition zero_row :: "u64 list" where
  "zero_row = replicate (2 * STATUS_ALL + 1) 0"

definition meter0 :: meter where
  "meter0 = \<lparr>feq_cache = 0, rows = replicate 20 zero_row\<rparr>"

section \<open>One call\<close>

definition row_ok :: "u64 list \<Rightarrow> bool" where
  "row_ok row \<longleftrightarrow> length row = 2 * STATUS_ALL + 1"

lemma row_okE:
  assumes "row_ok row"
  obtains a b c d e f g where "row = [a, b, c, d, e, f, g]"
  using assms unfolding row_ok_def
  by (auto simp: numeral_eq_Suc length_Suc_conv)

lemma record_row_shape:
  "record_row t1 freq t2 [pc, c, pp, p, pb, b, t0] bytes pps =
     (if t1 - t0 < freq
      then ([pc, c + 1, pp, p + ucast pps, pb, b + ucast bytes, t0], None)
      else ([c + 1, 0, p + ucast pps, 0, (b + ucast bytes) * 8, 0, t2],
            Some \<lparr>r_speed = human ((b + ucast bytes) * 8), r_calls = human (c + 1),
                  r_pps = human (p + ucast pps)\<rparr>))"
  by (simp add: record_row_def add_cell_def Let_def)

lemma row_ok_shape [simp]: "row_ok [a, b, c, d, e, f, g]"
  by (simp add: row_ok_def)

lemma record_row_ok: "row_ok row \<Longrightarrow> row_ok (fst (record_row t1 freq t2 row bytes pps))"
  by (erule row_okE) (auto simp: record_row_shape)

lemma zero_row_ok [simp]: "row_ok zero_row"
  by (simp add: row_ok_def zero_row_def)

lemma FEQ_value: "FEQ x f = (if f = 0 then (x, x) else (f, f))"
  by (simp add: FEQ_def)

section \<open>The meter contract\<close>

text \<open>One input of the meter: the readings, the cached frequency and the two counts.\<close>

type_synonym sample = "u64 \<times> u64 \<times> u64 \<times> u32 \<times> u32"

definition sample_tick :: "(u64 list \<Rightarrow> u64) \<Rightarrow> sample \<Rightarrow> u64 list \<Rightarrow> u64 option \<times> u64 list" where
  "sample_tick sel x row =
     (case x of (t1, freq, t2, bytes, pps) \<Rightarrow>
        (case record_row t1 freq t2 row bytes pps of
           (row', rep) \<Rightarrow> (map_option (\<lambda>_. sel row') rep, row')))"

lemma sample_tick_tuple:
  "sample_tick sel (t1, freq, t2, bytes, pps) row =
     (case record_row t1 freq t2 row bytes pps of
        (row', rep) \<Rightarrow> (map_option (\<lambda>_. sel row') rep, row'))"
  by (simp add: sample_tick_def)

text \<open>Bytes are published times eight, as bits: the byte meter hands out the published cell.
  Its level is the open window in bits as well.\<close>

interpretation calls: rate_meter
  "sample_tick (\<lambda>row. row ! (2 * STATUS_CALL))" "\<lambda>row. row ! (2 * STATUS_CALL + 1)"
  "\<lambda>_. 1" row_ok
  by unfold_locales
    (auto elim!: row_okE
      simp: sample_tick_def record_row_shape split: if_splits prod.splits)

interpretation packets: rate_meter
  "sample_tick (\<lambda>row. row ! (2 * STATUS_PPS))" "\<lambda>row. row ! (2 * STATUS_PPS + 1)"
  "\<lambda>(_, _, _, _, pps). ucast pps" row_ok
  by unfold_locales
    (auto elim!: row_okE
      simp: sample_tick_def record_row_shape split: if_splits prod.splits)

interpretation bits: rate_meter
  "sample_tick (\<lambda>row. row ! (2 * STATUS_BYTES))" "\<lambda>row. row ! (2 * STATUS_BYTES + 1) * 8"
  "\<lambda>(_, _, _, bytes, _). ucast bytes * 8" row_ok
  by unfold_locales
    (auto elim!: row_okE
      simp: sample_tick_def record_row_shape algebra_simps split: if_splits prod.splits)

section \<open>Whole runs\<close>

text \<open>A run of one row, with every closed window's published cells in order.\<close>

record window =
  w_calls :: u64
  w_pps :: u64
  w_bits :: u64

fun record_run :: "sample list \<Rightarrow> u64 list \<Rightarrow> window list \<times> u64 list" where
  "record_run [] row = ([], row)"
| "record_run ((t1, freq, t2, bytes, pps) # xs) row =
     (case record_row t1 freq t2 row bytes pps of
        (row', rep) \<Rightarrow>
          (case record_run xs row' of
             (ws, row'') \<Rightarrow>
               (case rep of
                  None \<Rightarrow> (ws, row'')
                | Some _ \<Rightarrow>
                    (\<lparr>w_calls = row' ! (2 * STATUS_CALL), w_pps = row' ! (2 * STATUS_PPS),
                      w_bits = row' ! (2 * STATUS_BYTES)\<rparr> # ws, row''))))"

lemma record_run_meter:
  assumes sel: "\<And>row. f \<lparr>w_calls = row ! (2 * STATUS_CALL), w_pps = row ! (2 * STATUS_PPS),
                      w_bits = row ! (2 * STATUS_BYTES)\<rparr> = sel row"
    and run: "record_run xs row = (ws, row')"
  shows "meter_run (sample_tick sel) xs row = (map f ws, row')"
  using run
proof (induction xs row arbitrary: ws row' rule: record_run.induct)
  case (2 t1 freq t2 bytes pps xs row)
  obtain r1 rep where r1: "record_row t1 freq t2 row bytes pps = (r1, rep)" by fastforce
  obtain ws1 r2 where r2: "record_run xs r1 = (ws1, r2)" by fastforce
  have "meter_run (sample_tick sel) xs r1 = (map f ws1, r2)"
    using "2.IH" [OF r1 [symmetric] r2] .
  with "2.prems" r1 r2 sel show ?case
    by (auto simp: sample_tick_tuple split: option.splits)
qed simp

section \<open>What the meter promises\<close>

lemma zero_row_list: "zero_row = [0, 0, 0, 0, 0, 0, 0]"
  by (simp add: zero_row_def numeral_eq_Suc)

text \<open>C19: the meter loses and invents nothing: over any run of calls from the cleared row, whatever
  the clock reads, the windows it publishes and the window still open add up to the number of
  calls, to the packets and, as bits, to eight times the bytes that were recorded.\<close>

theorem meter_conserves:
  assumes "record_run xs zero_row = (ws, row)"
  shows "sum_list (map w_calls ws) + row ! (2 * STATUS_CALL + 1) = of_nat (length xs) \<and>
         sum_list (map w_pps ws) + row ! (2 * STATUS_PPS + 1)
           = sum_list (map (\<lambda>(_, _, _, _, pps). ucast pps) xs) \<and>
         sum_list (map w_bits ws) + row ! (2 * STATUS_BYTES + 1) * 8
           = sum_list (map (\<lambda>(_, _, _, bytes, _). ucast bytes * 8) xs)"
proof (intro conjI)
  have "sum_list (map (\<lambda>_. 1 :: u64) xs) = of_nat (length xs)" by (induction xs) simp_all
  then show "sum_list (map w_calls ws) + row ! (2 * STATUS_CALL + 1) = of_nat (length xs)"
    using calls.conserved [OF zero_row_ok record_run_meter [OF _ assms, of w_calls]] by (simp add: zero_row_list)
  show "sum_list (map w_pps ws) + row ! (2 * STATUS_PPS + 1)
      = sum_list (map (\<lambda>(_, _, _, _, pps). ucast pps) xs)"
    using packets.conserved [OF zero_row_ok record_run_meter [OF _ assms, of w_pps]] by (simp add: zero_row_list)
  show "sum_list (map w_bits ws) + row ! (2 * STATUS_BYTES + 1) * 8
      = sum_list (map (\<lambda>(_, _, _, bytes, _). ucast bytes * 8) xs)"
    using bits.conserved [OF zero_row_ok record_run_meter [OF _ assms, of w_bits]] by (simp add: zero_row_list)
qed

theorem meter_conserves_witness:
  "(let (ws, row) = record_run [(5, 10, 5, 100, 1), (12, 10, 13, 50, 2), (14, 10, 15, 7, 1)] zero_row
    in map w_bits ws = [1200] \<and> row ! 5 = 7 \<and> row ! 1 = 1)"
proof -
  let ?xs = "[(5, 10, 5, 100, 1), (12, 10, 13, 50, 2), (14, 10, 15, 7, 1)] :: sample list"
  obtain ws row where r: "record_run ?xs zero_row = (ws, row)" by fastforce
  then have "map w_bits ws = [1200]" "row ! 5 = 7" by (auto simp: zero_row_list record_row_shape)
  moreover from r have "map w_calls ws = [2]" by (auto simp: zero_row_list record_row_shape)
  then have "row ! 1 = 1" using meter_conserves [OF r] by simp
  ultimately show ?thesis using r by simp
qed

text \<open>The calls of all threads, in any order.\<close>

record metered_call =
  mc_thread :: nat
  mc_reading :: reading
  mc_bytes :: u32
  mc_pps :: u32

definition meter_step :: "metered_call \<Rightarrow> meter \<Rightarrow> meter option" where
  "meter_step c m = map_option fst (RECORD (mc_thread c) (mc_reading c) (mc_bytes c) (mc_pps c) m)"

definition call_sample :: "u64 \<Rightarrow> metered_call \<Rightarrow> sample" where
  "call_sample freq c = (now1 (mc_reading c), freq, now2 (mc_reading c), mc_bytes c, mc_pps c)"

lemma record_run_snoc:
  "snd (record_run (xs @ [x]) row) = fst (case x of (t1, freq, t2, bytes, pps) \<Rightarrow>
     record_row t1 freq t2 (snd (record_run xs row)) bytes pps)"
  by (induction xs row rule: record_run.induct) (auto split: prod.splits option.splits)

interpretation meters: guarded_machine meter_step
  "\<lambda>m. length (rows m) = 20 \<and> feq_cache m \<in> {0, freq}" "\<lambda>c _. os_freq (mc_reading c) = freq" for freq
  by unfold_locales
    (auto simp: meter_step_def RECORD_def record_fn_def FEQ_def split: if_splits prod.splits)

lemma meter_run_inv:
  assumes "\<forall>c \<in> set cs. os_freq (mc_reading c) = freq" and "run_steps meter_step cs meter0 = Some m"
  shows "length (rows m) = 20" and "feq_cache m \<in> {0, freq}"
  using meters.run_inv [OF _ _ assms(2), of freq] assms(1) by (auto simp: meter0_def)

lemma meter_step_effect:
  assumes "length (rows m) = 20" and "feq_cache m \<in> {0, freq}" and "os_freq (mc_reading c) = freq"
  shows "meter_step c m = None \<longleftrightarrow> 20 \<le> mc_thread c"
    and "meter_step c m = Some m' \<Longrightarrow> t < 20 \<Longrightarrow> rows m' ! t =
      (if t = mc_thread c then fst (case call_sample freq c of (t1, f, t2, bytes, pps) \<Rightarrow>
         record_row t1 f t2 (rows m ! t) bytes pps) else rows m ! t)"
  using assms by (auto simp: meter_step_def RECORD_def record_fn_def FEQ_def call_sample_def
      split: if_splits prod.splits)

text \<open>C20: the threads do not disturb each other: with a clock frequency that the machine always
  reports alike, each thread's row is what its own calls alone make of it, however the calls of
  the threads interleave; and a call fails only when its thread number is outside the table.\<close>

theorem meter_threads:
  assumes "\<forall>c \<in> set cs. os_freq (mc_reading c) = freq" 
  shows "(run_steps meter_step cs meter0 = None \<longleftrightarrow> (\<exists>c \<in> set cs. 20 \<le> mc_thread c)) \<and>
    (\<forall>m t. run_steps meter_step cs meter0 = Some m \<longrightarrow> t < 20 \<longrightarrow>
       rows m ! t = snd (record_run (map (call_sample freq) (filter (\<lambda>c. mc_thread c = t) cs)) zero_row))"
  using assms(1)
proof (induction cs rule: rev_induct)
  case Nil
  then show ?case by (simp add: meter0_def)
next
  case (snoc c cs)
  show ?case
  proof (cases "run_steps meter_step cs meter0")
    case None
    with snoc show ?thesis by (auto simp: run_steps_append)
  next
    case (Some m)
    have inv: "length (rows m) = 20" "feq_cache m \<in> {0, freq}" "os_freq (mc_reading c) = freq"
      using meter_run_inv [OF _ Some] snoc.prems by auto
    note step = meter_step_effect [OF inv]
    have last: "run_steps meter_step (cs @ [c]) meter0 = meter_step c m"
      using Some by (simp add: run_steps_append split: option.split)
    have "\<not> (\<exists>c \<in> set cs. 20 \<le> mc_thread c)" and
      "\<And>t. t < 20 \<Longrightarrow> rows m ! t =
         snd (record_run (map (call_sample freq) (filter (\<lambda>c. mc_thread c = t) cs)) zero_row)"
      using snoc Some by auto
    with step show ?thesis
      unfolding last by (auto simp: record_run_snoc)
  qed
qed

theorem meter_threads_witness:
  "(let cs = [\<lparr>mc_thread = 3, mc_reading = \<lparr>now1 = 5, now2 = 6, os_freq = 10\<rparr>, mc_bytes = 100, mc_pps = 1\<rparr>,
              \<lparr>mc_thread = 4, mc_reading = \<lparr>now1 = 6, now2 = 7, os_freq = 10\<rparr>, mc_bytes = 7, mc_pps = 1\<rparr>]
    in case run_steps meter_step cs meter0 of None \<Rightarrow> False | Some m \<Rightarrow> rows m ! 3 ! 5 = 100 \<and> rows m ! 4 ! 5 = 7)"
proof -
  let ?cs = "[\<lparr>mc_thread = 3, mc_reading = \<lparr>now1 = 5, now2 = 6, os_freq = 10\<rparr>, mc_bytes = 100, mc_pps = 1\<rparr>,
              \<lparr>mc_thread = 4, mc_reading = \<lparr>now1 = 6, now2 = 7, os_freq = 10\<rparr>, mc_bytes = 7, mc_pps = 1\<rparr>]"
  note each = meter_threads [of ?cs 10]
  obtain m where m: "run_steps meter_step ?cs meter0 = Some m" using each by fastforce
  with each have "rows m ! 3 = snd (record_run [(5, 10, 6, 100, 1)] zero_row)"
    "rows m ! 4 = snd (record_run [(6, 10, 7, 7, 1)] zero_row)" by (auto simp: call_sample_def)
  then show ?thesis using m by (simp add: zero_row_list record_row_shape)
qed

definition unit_of :: "magnitude \<Rightarrow> rat" where
  "unit_of g = (case g of Giga \<Rightarrow> 1024 ^ 3 | Mega \<Rightarrow> 1024 ^ 2 | Kilo \<Rightarrow> 1024 | Plain \<Rightarrow> 1)"

lemma scaled:
  fixes k :: rat
  assumes "0 < k"
  shows "of_nat n / k * k = of_nat n" "k < of_nat n \<Longrightarrow> 1 < of_nat n / k"
    "of_nat n \<le> 1024 * k \<Longrightarrow> of_nat n / k \<le> 1024"
  using assms by (simp_all add: field_simps)

text \<open>What is printed is the count itself, scaled: the number times its unit is the cell's
  content, and the unit is the largest below the count.\<close>

theorem human_exact:
  "(case human data of (g, x) \<Rightarrow>
      x * unit_of g = of_nat (unat data) \<and> (g = Plain \<or> 1 < x) \<and> (g = Giga \<or> x \<le> 1024))"
proof -
  let ?n = "unat data"
  have w: "data > 1024 * 1024 * 1024 \<longleftrightarrow> 1024 ^ 3 < (of_nat ?n :: rat)"
    "data > 1024 * 1024 \<longleftrightarrow> 1024 ^ 2 < (of_nat ?n :: rat)" "data > 1024 \<longleftrightarrow> 1024 < (of_nat ?n :: rat)"
    using of_nat_less_iff [of "1024 ^ 3" ?n, where ?'a = rat] of_nat_less_iff [of "1024 ^ 2" ?n, where ?'a = rat]
      of_nat_less_iff [of 1024 ?n, where ?'a = rat]
    by (simp_all add: word_less_nat_alt)
  show ?thesis
    using scaled [of "1024 ^ 3" ?n] scaled [of "1024 ^ 2" ?n] scaled [of 1024 ?n] w
    unfolding human_def unit_of_def by (auto simp: not_less)
qed

text \<open>A read that fails is metered as traffic. \<open>RECORD\<close> takes its byte count as an unsigned
  32 bit number, so the negative result of a failed receive adds almost four gigabytes to the
  open window.\<close>

theorem negative_count_recorded:
  assumes "n < 0" and "- (2 ^ 31) \<le> n" and "row_ok row" and "now1 rd - row ! (2 * STATUS_ALL) < freq"
  shows "fst (record_row (now1 rd) freq (now2 rd) row (word_of_int n) 1) ! (2 * STATUS_BYTES + 1)
    = row ! (2 * STATUS_BYTES + 1) + of_int (2 ^ 32 + n)"
proof -
  have "(ucast (word_of_int n :: u32) :: u64) = of_int (2 ^ 32 + n)"
  proof -
    have "n mod 2 ^ 32 = (n + 2 ^ 32) mod 2 ^ 32" by simp
    also have "\<dots> = n + 2 ^ 32" using assms(1,2) by (intro mod_pos_pos_trivial) auto
    finally have "uint (word_of_int n :: u32) = 2 ^ 32 + n"
      by (simp add: unsigned_of_int take_bit_eq_mod)
    then show ?thesis by (simp add: ucast_eq)
  qed
  with assms(3,4) show ?thesis by (elim row_okE) (simp add: record_row_shape)
qed

theorem negative_count_recorded_witness:
  "fst (record_row 3 10 4 zero_row (word_of_int (- 1)) 1) ! 5 = 0xFFFFFFFF"
  using negative_count_recorded [of "-1" zero_row "\<lparr>now1 = 3, now2 = 4, os_freq = 10\<rparr>" 10]
  by (simp add: zero_row_list)

end
