(* ===== verification/Plugins.thy ===== *)
theory Plugins
  imports Prelude
begin

text \<open>
  The small pieces beside the servers: the packet node of \<open>src/src/node-test/src/node.c\<close>, which handles
  four packets at a time, the timer process of \<open>src/src/process-test/src/node.c\<close>, and the kernel module
  of \<open>src/src/armv7l-pmu/main.c\<close>, which lets programs read the cycle counter.
\<close>

section \<open>The packet node\<close>

text \<open>What the node reads of a VPP buffer, and a trace record.\<close>

record vbuffer =
  is_traced :: bool
  rx_if_index :: u32

record qs_trace =
  next_index :: u32
  sw_if_index :: u32

text \<open>The state of \<open>aaa_qs_inline\<close>: the pointers \<open>b\<close> and \<open>next\<close> as one index (they move together), the
  packets left, the next nodes and the traces added. Indices past the arrays are aborts (\<open>None\<close>).\<close>

record qs_state =
  qpos :: nat
  n_left_from :: nat
  nexts :: "u16 list"
  traces :: "qs_trace list"

definition set_next :: "nat \<Rightarrow> qs_state \<Rightarrow> qs_state option" where
  "set_next k s = (if qpos s + k < length (nexts s) then Some (s\<lparr>nexts := (nexts s)[qpos s + k := 0]\<rparr>) else None)"

definition add_trace :: "vbuffer list \<Rightarrow> nat \<Rightarrow> qs_state \<Rightarrow> qs_state option" where
  "add_trace bufs k s =
     (if qpos s + k < length bufs \<and> qpos s + k < length (nexts s) then
        Some (if is_traced (bufs ! (qpos s + k))
              then s\<lparr>traces := traces s @ [\<lparr>next_index = ucast (nexts s ! (qpos s + k)),
                                            sw_if_index = rx_if_index (bufs ! (qpos s + k))\<rparr>]\<rparr>
              else s)
      else None)"

fun each_of :: "(nat \<Rightarrow> qs_state \<Rightarrow> qs_state option) \<Rightarrow> nat list \<Rightarrow> qs_state \<Rightarrow> qs_state option" where
  "each_of f [] s = Some s"
| "each_of f (k # ks) s = (case f k s of None \<Rightarrow> None | Some s \<Rightarrow> each_of f ks s)"

text \<open>\<open>n\<close> packets at once, with the prefetch of the four after them, which reads their pointers.\<close>

definition prefetch_ok :: "vbuffer list \<Rightarrow> qs_state \<Rightarrow> bool" where
  "prefetch_ok bufs s \<longleftrightarrow> n_left_from s \<ge> 8 \<longrightarrow> qpos s + 7 < length bufs"

definition handle_group :: "vbuffer list \<Rightarrow> bool \<Rightarrow> nat \<Rightarrow> qs_state \<Rightarrow> qs_state option" where
  "handle_group bufs is_trace n s =
     (case each_of set_next [0..<n] s of
        None \<Rightarrow> None
      | Some s \<Rightarrow>
          (case (if is_trace then each_of (add_trace bufs) [0..<n] s else Some s) of
             None \<Rightarrow> None
           | Some s \<Rightarrow> Some (s\<lparr>qpos := qpos s + n, n_left_from := n_left_from s - n\<rparr>)))"

text \<open>The two loops. Each turn takes packets away, so there are at most \<open>n_left_from\<close> turns.\<close>

fun quad_loop :: "nat \<Rightarrow> vbuffer list \<Rightarrow> bool \<Rightarrow> qs_state \<Rightarrow> qs_state option" where
  "quad_loop 0 bufs is_trace s = (if n_left_from s \<ge> 4 then None else Some s)"
| "quad_loop (Suc f) bufs is_trace s =
     (if n_left_from s \<ge> 4 then
        if prefetch_ok bufs s then
          (case handle_group bufs is_trace 4 s of None \<Rightarrow> None | Some s \<Rightarrow> quad_loop f bufs is_trace s)
        else None
      else Some s)"

fun single_loop :: "nat \<Rightarrow> vbuffer list \<Rightarrow> bool \<Rightarrow> qs_state \<Rightarrow> qs_state option" where
  "single_loop 0 bufs is_trace s = (if n_left_from s > 0 then None else Some s)"
| "single_loop (Suc f) bufs is_trace s =
     (if n_left_from s > 0 then
        (case handle_group bufs is_trace 1 s of None \<Rightarrow> None | Some s \<Rightarrow> single_loop f bufs is_trace s)
      else Some s)"

text \<open>What is enqueued: the next node of each packet of the frame; and the traces. \<open>junk\<close> is the array of
  next nodes before it is written, of \<open>VLIB_FRAME_SIZE\<close> entries; \<open>vlib_get_buffers\<close> fills as many
  buffers as the frame has.\<close>

definition aaa_qs_inline :: "vbuffer list \<Rightarrow> u16 list \<Rightarrow> bool \<Rightarrow> (u16 list \<times> qs_trace list \<times> nat) option" where
  "aaa_qs_inline frame junk is_trace =
     (let n = length frame
      in case quad_loop n frame is_trace \<lparr>qpos = 0, n_left_from = n, nexts = junk, traces = []\<rparr> of
           None \<Rightarrow> None
         | Some s \<Rightarrow>
             (case single_loop n frame is_trace s of
                None \<Rightarrow> None
              | Some s \<Rightarrow> Some (take n (nexts s), traces s, n)))"

text \<open>The traces of a list of packets, one at a time.\<close>

definition trace_of :: "vbuffer \<Rightarrow> qs_trace" where
  "trace_of b = \<lparr>next_index = 0, sw_if_index = rx_if_index b\<rparr>"

definition traces_of :: "bool \<Rightarrow> vbuffer list \<Rightarrow> qs_trace list" where
  "traces_of is_trace bs = (if is_trace then map trace_of (filter is_traced bs) else [])"

text \<open>After handling the packets before \<open>qpos\<close>: their next nodes are 0 and their traces are there.\<close>

definition handled :: "vbuffer list \<Rightarrow> u16 list \<Rightarrow> bool \<Rightarrow> qs_state \<Rightarrow> bool" where
  "handled bufs junk is_trace s \<longleftrightarrow>
     qpos s + n_left_from s = length bufs
     \<and> nexts s = replicate (qpos s) 0 @ drop (qpos s) junk
     \<and> traces s = traces_of is_trace (take (qpos s) bufs)"

lemma each_of_append:
  "each_of f (ks @ ls) s = (case each_of f ks s of None \<Rightarrow> None | Some s \<Rightarrow> each_of f ls s)"
  by (induction ks arbitrary: s) (auto split: option.splits)

lemma each_set_next:
  assumes "nexts s = replicate (qpos s) 0 @ drop (qpos s) junk" "qpos s + n \<le> length junk"
  shows "each_of set_next [0..<n] s = Some (s\<lparr>nexts := replicate (qpos s + n) 0 @ drop (qpos s + n) junk\<rparr>)"
  using assms(2)
proof (induction n)
  case 0
  then show ?case using assms(1) by simp
next
  case (Suc n)
  have "(drop (qpos s + n) junk)[0 := 0] = 0 # drop (Suc (qpos s + n)) junk"
    using Suc.prems by (simp flip: Cons_nth_drop_Suc)
  then show ?case
    using Suc by (simp add: each_of_append set_next_def list_update_append replicate_append_same flip: replicate_Suc)
qed

lemma each_add_trace:
  assumes "nexts s = replicate (qpos s + n) 0 @ ys" "qpos s + n \<le> length bufs" "m \<le> n"
  shows "each_of (add_trace bufs) [0..<m] s
    = Some (s\<lparr>traces := traces s @ traces_of True (take m (drop (qpos s) bufs))\<rparr>)"
  using assms(3)
proof (induction m)
  case 0
  then show ?case by (simp add: traces_of_def)
next
  case (Suc m)
  have "take (Suc m) (drop (qpos s) bufs) = take m (drop (qpos s) bufs) @ [bufs ! (qpos s + m)]"
    using Suc.prems assms(2) by (simp add: take_Suc_conv_app_nth)
  moreover have "nexts s ! (qpos s + m) = 0" using Suc.prems assms(1) by (simp add: nth_append)
  ultimately show ?case
    using Suc assms by (simp add: each_of_append add_trace_def traces_of_def trace_of_def)
qed

lemma traces_of_append: "traces_of t (xs @ ys) = traces_of t xs @ traces_of t ys"
  by (simp add: traces_of_def)

lemma handle_group_handled:
  assumes "handled bufs junk t s" "length bufs \<le> length junk" "n \<le> n_left_from s"
  shows "\<exists>s'. handle_group bufs t n s = Some s' \<and> handled bufs junk t s' \<and> n_left_from s' = n_left_from s - n"
proof -
  let ?s = "s\<lparr>nexts := replicate (qpos s + n) 0 @ drop (qpos s + n) junk\<rparr>"
  have b: "qpos s + n \<le> length bufs" using assms by (simp add: handled_def)
  have 1: "each_of set_next [0..<n] s = Some ?s"
    using assms b by (intro each_set_next) (auto simp: handled_def)
  have 2: "each_of (add_trace bufs) [0..<n] ?s
      = Some (?s\<lparr>traces := traces s @ traces_of True (take n (drop (qpos s) bufs))\<rparr>)"
    using each_add_trace [of ?s n "drop (qpos s + n) junk" bufs n] b by simp
  have "take (qpos s + n) bufs = take (qpos s) bufs @ take n (drop (qpos s) bufs)"
    by (simp add: take_add)
  then have "traces_of t (take (qpos s + n) bufs) = traces_of t (take (qpos s) bufs) @ traces_of t (take n (drop (qpos s) bufs))"
    by (simp add: traces_of_append)
  then show ?thesis
    using 1 2 assms by (cases t) (auto simp: handle_group_def handled_def traces_of_def)
qed

lemma quad_loop_handled:
  assumes "handled bufs junk t s" "length bufs \<le> length junk" "n_left_from s \<le> f"
  shows "\<exists>s'. quad_loop f bufs t s = Some s' \<and> handled bufs junk t s'"
  using assms
proof (induction f arbitrary: s)
  case (Suc f)
  have "prefetch_ok bufs s" using Suc.prems(1) by (simp add: prefetch_ok_def handled_def)
  then show ?case
    using Suc handle_group_handled [of bufs junk t s 4] by (cases "n_left_from s \<ge> 4") auto
qed auto

lemma single_loop_handled:
  assumes "handled bufs junk t s" "length bufs \<le> length junk" "n_left_from s \<le> f"
  shows "\<exists>s'. single_loop f bufs t s = Some s' \<and> handled bufs junk t s' \<and> n_left_from s' = 0"
  using assms
proof (induction f arbitrary: s)
  case (Suc f)
  then show ?case
    using handle_group_handled [of bufs junk t s 1] by (cases "n_left_from s > 0") auto
qed auto

text \<open>C40: The node's loop of four packets at a time and the loop for the rest handle every packet of a frame
  once and inside its arrays, whatever they held before: they are the same as sending each packet to
  next node 0 and tracing the marked ones in order.\<close>

theorem quad_loop_same_as_single:
  assumes "length frame \<le> length junk"
  shows "aaa_qs_inline frame junk is_trace
    = Some (map (\<lambda>b. 0) frame, traces_of is_trace frame, length frame)"
proof -
  let ?s = "\<lparr>qpos = 0, n_left_from = length frame, nexts = junk, traces = []\<rparr>"
  have "handled frame junk is_trace ?s" by (simp add: handled_def traces_of_def)
  then obtain s1 where 1: "quad_loop (length frame) frame is_trace ?s = Some s1" "handled frame junk is_trace s1"
    using quad_loop_handled [OF _ assms] by fastforce
  moreover have "n_left_from s1 \<le> length frame" using 1(2) by (simp add: handled_def)
  ultimately obtain s2 where "single_loop (length frame) frame is_trace s1 = Some s2"
    "handled frame junk is_trace s2" "n_left_from s2 = 0"
    using single_loop_handled [OF _ assms] by blast
  then show ?thesis
    using 1 assms by (simp add: aaa_qs_inline_def Let_def handled_def map_replicate_const)
qed

definition demo_frame :: "vbuffer list" where
  "demo_frame = map (\<lambda>i. \<lparr>is_traced = (i = 2 \<or> i = 4), rx_if_index = of_nat i\<rparr>) [0..<5]"

theorem quad_loop_same_as_single_witness:
  "aaa_qs_inline demo_frame (replicate 256 7) True
    = Some ([0, 0, 0, 0, 0], [\<lparr>next_index = 0, sw_if_index = 2\<rparr>, \<lparr>next_index = 0, sw_if_index = 4\<rparr>], 5)"
  using quad_loop_same_as_single [of demo_frame "replicate 256 7" True]
  by (simp add: demo_frame_def traces_of_def trace_of_def upt_rec)

section \<open>The timer process\<close>

text \<open>\<open>wait\<close> is what is left of the time waited for, in turn; \<open>is_zero\<close> is VPP's test of such a time.
  The times asked for, with the event types that are reported as not handled (none is \<open>~0\<close>).\<close>

abbreviation (input) EXAMPLE_POLL_PERIOD :: real where "EXAMPLE_POLL_PERIOD \<equiv> 1"

fun process_loop :: "(real \<Rightarrow> bool) \<Rightarrow> real \<Rightarrow> (real \<times> u64) list \<Rightarrow> real list \<times> u64 list" where
  "process_loop is_zero t [] = ([t], [])"
| "process_loop is_zero t ((left, event_type) # es) =
     (case process_loop is_zero (if is_zero left then EXAMPLE_POLL_PERIOD else left) es of
        (ts, ws) \<Rightarrow> (t # ts, if event_type = - 1 then ws else event_type # ws))"

definition example_process :: "(real \<Rightarrow> bool) \<Rightarrow> (real \<times> u64) list \<Rightarrow> real list \<times> u64 list" where
  "example_process is_zero es = process_loop is_zero EXAMPLE_POLL_PERIOD es"

lemma process_loop_waits:
  "\<not> is_zero t \<Longrightarrow> \<not> is_zero 1 \<Longrightarrow> list_all (\<lambda>x. \<not> is_zero x) (fst (process_loop is_zero t es))"
  by (induction is_zero t es rule: process_loop.induct) (auto split: prod.splits if_splits)

lemma process_reports:
  "length (fst (process_loop is_zero t es)) = length es + 1
   \<and> snd (process_loop is_zero t es) = filter (\<lambda>e. e \<noteq> - 1) (map snd es)"
  by (induction is_zero t es rule: process_loop.induct) (auto split: prod.splits)

text \<open>The process never waits for a time that counts as zero, waits once more than it was woken, and
  reports each event it is sent, timeouts apart.\<close>

theorem process_never_spins:
  assumes "\<not> is_zero 1"
  shows "list_all (\<lambda>x. \<not> is_zero x) (fst (example_process is_zero es))
    \<and> length (fst (example_process is_zero es)) = length es + 1
    \<and> snd (example_process is_zero es) = filter (\<lambda>e. e \<noteq> - 1) (map snd es)"
  using process_loop_waits [of is_zero 1] process_reports assms by (simp add: example_process_def)

theorem process_never_spins_witness:
  "list_all (\<lambda>x. \<not> x < (1 / 100000 :: real)) (fst (example_process (\<lambda>x. x < 1 / 100000) [(0, - 1), (1 / 2, 3)]))
   \<and> snd (example_process (\<lambda>x. x < 1 / 100000) [(0, - 1), (1 / 2, 3)]) = [3]"
  using process_never_spins [of "\<lambda>x. x < 1 / 100000" "[(0, - 1), (1 / 2, 3)]"] by simp

section \<open>The performance counters\<close>

text \<open>The system registers a core's \<open>mcr\<close> instructions write, in order: user access, the interrupts that
  are disabled, control, the counters enabled, and the overflow flags.\<close>

datatype pmu_reg = Pmuserenr | Pmintenclr | Pmcr | Pmcntenset | Pmovsr

definition set_enable :: "u32 \<Rightarrow> (pmu_reg \<times> u32) list" where
  "set_enable val =
     (let value = 1 OR 2 OR 4 OR 8 OR 16
      in [(Pmuserenr, val), (Pmintenclr, 0x8000000f), (Pmcr, value), (Pmcntenset, 0x8000000f), (Pmovsr, 0x8000000f)])"

text \<open>Each core runs the writes.\<close>

definition pum_user_enable :: "'c list \<Rightarrow> ('c \<times> (pmu_reg \<times> u32) list) list \<times> int" where
  "pum_user_enable cores = (map (\<lambda>c. (c, set_enable 1)) cores, 0)"

definition pmu_end :: "'c list \<Rightarrow> ('c \<times> (pmu_reg \<times> u32) list) list" where
  "pmu_end cores = map (\<lambda>c. (c, set_enable 0)) cores"

text \<open>Unloading takes the user's access away again but leaves the counters counting.\<close>

lemma set_enable_same: "tl (set_enable a) = tl (set_enable b)"
  by (simp add: set_enable_def Let_def)

lemma control_value: "map_of (set_enable a) Pmcr = Some 0x1f"
  by (simp add: set_enable_def Let_def)

end
