(* ===== verification/FpServers.thy ===== *)
theory FpServers
  imports CText
begin

text \<open>
  The servers of the fast-path socket program: \<open>src/src/fp-sock/udp-server.c\<close>, whose \<open>notify\<close> answers
  each datagram from inside the stack, and \<open>src/src/fp-sock/tcp-server.c\<close>, which greets each client
  with its own address.

  OFP's socket calls are values of \<open>sock_call\<close>: what each returns is a parameter and the calls made
  are kept in order. ODP's packets are a type variable with the operations of \<open>packet_ops\<close>.
\<close>

section \<open>Sockets\<close>

text \<open>An address, as IPv4 address and port in network order.\<close>

datatype sock_kind = Dgram | Stream
datatype sock_opt = Reuseaddr | Reuseport

datatype sock_call =
    Ofp_init_local_call | Sleep int | Socket sock_kind | Setsockopt int sock_opt | Bind int u32 u16
  | Listen int int | Accept int | Send int string | Sendto int string u32 u16 | Sigevent int | Close int

type_synonym sock_env = "sock_call \<Rightarrow> int"

definition IP4 :: "u32 \<Rightarrow> u32 \<Rightarrow> u32 \<Rightarrow> u32 \<Rightarrow> u32" where
  "IP4 a b c d =
     (a AND 0xFF) OR push_bit 8 (b AND 0xFF) OR push_bit 16 (c AND 0xFF) OR push_bit 24 (d AND 0xFF)"

abbreviation (input) TCP_PORT :: u16 where "TCP_PORT \<equiv> 5000"
abbreviation (input) UDP_PORT :: u16 where "UDP_PORT \<equiv> 6000"

section \<open>The UDP server\<close>

text \<open>\<open>init_sock\<close>: what it returns, and its calls.\<close>

definition udp_init_sock :: "sock_env \<Rightarrow> u32 \<Rightarrow> u16 \<Rightarrow> sock_call list \<times> int" where
  "udp_init_sock E ip port =
     (let fd = E (Socket Dgram); b = Bind fd ip (bswap16 port)
      in if fd = - 1 then ([Socket Dgram], - 1)
         else if E b = - 1 then ([Socket Dgram, b], - 1)
         else ([Socket Dgram, b], fd))"

definition send_data :: "sock_env \<Rightarrow> int \<Rightarrow> u32 \<Rightarrow> u16 \<Rightarrow> string \<Rightarrow> sock_call list \<times> int" where
  "send_data E fd ip port buf =
     (let c = Sendto fd (takeWhile (\<lambda>x. of_char x \<noteq> (0 :: nat)) buf) ip port
      in ([c], if E c = - 1 then - 1 else 0))"

text \<open>Every millionth datagram is printed; \<open>count\<close> is the static counter \<open>c\<close> before it is incremented.\<close>

definition prints :: "u32 \<Rightarrow> bool" where
  "prints count \<longleftrightarrow> sint count mod 1000000 = 0"

text \<open>What \<open>ofp_recvfrom\<close> delivers: its return value, the data it stored, and the sender it stored with
  the length of the address.\<close>

record received =
  r_len :: int
  r_data :: "u8 list"
  r_ip :: u32
  r_port :: u16
  r_addr_len :: u32

text \<open>\<open>recvfrom_udp\<close>: \<open>None\<close> is a write outside \<open>buf\<close>, otherwise the return value, the sender (if it was
  set), the buffer, the counter and what was printed. \<open>sizeof\<close> of an address is 16.\<close>

record recv_result =
  rv_value :: int
  rv_from :: "(u32 \<times> u16) option"
  rv_buf :: "u8 list"
  rv_count :: u32
  rv_print :: "u8 list"

definition recvfrom_udp :: "received \<Rightarrow> u8 list \<Rightarrow> u32 \<Rightarrow> recv_result option" where
  "recvfrom_udp r buf count =
     (let failed = (\<lambda>b. \<lparr>rv_value = - 1, rv_from = None, rv_buf = b, rv_count = count, rv_print = []\<rparr>)
      in if r_len r = - 1 then Some (failed buf)
         else
           (case fill (r_data r) buf of
              None \<Rightarrow> None
            | Some buf \<Rightarrow>
                if r_addr_len r \<noteq> 16 then Some (failed buf)
                else if r_len r < 0 \<or> r_len r \<ge> int (length buf) then None
                else
                  (let buf = buf[nat (r_len r) := 0]
                   in Some \<lparr>rv_value = 0, rv_from = Some (r_ip r, r_port r), rv_buf = buf, rv_count = count + 1,
                            rv_print = (if prints count then take (nat (r_len r)) buf else [])\<rparr>)))"

text \<open>ODP's packets. \<open>parse\<close> is \<open>ofp_udp_packet_parse\<close>: it moves the data pointer to the payload, and gives
  the payload's length and the sender; \<open>push_head\<close> makes room in front of the data, when there is room,
  and its result is not looked at; \<open>data\<close> is what lies from the data pointer on.\<close>

record 'p packet_ops =
  parse :: "'p \<Rightarrow> 'p \<times> nat \<times> u32 \<times> u16"
  push_head :: "nat \<Rightarrow> 'p \<Rightarrow> 'p"
  data :: "'p \<Rightarrow> u8 list"
  store :: "u8 list \<Rightarrow> 'p \<Rightarrow> 'p"

datatype sock_event = Event_invalid | Event_accept | Event_recv

record 'p sigval =
  sockfd :: int
  event :: sock_event
  pkt :: "'p option"

text \<open>What \<open>ofp_udp_pkt_sendto\<close> is given.\<close>

record 'p pkt_send =
  ps_fd :: int
  ps_pkt :: 'p
  ps_ip :: u32
  ps_port :: u16

definition echo_tag :: "u8 list" where
  "echo_tag = [69, 67, 72, 79, 58]"

text \<open>The packet sent, if any, the counter, what was printed, and the event's record, whose packet is made
  invalid. There is a packet with a receive event; without one the parser would be given none.\<close>

record 'p notified =
  n_sent :: "'p pkt_send option"
  n_count :: u32
  n_print :: "u8 list"
  n_sigval :: "'p sigval"

definition notify :: "'p packet_ops \<Rightarrow> 'p sigval \<Rightarrow> u32 \<Rightarrow> 'p notified option" where
  "notify P ss count =
     (if event ss \<noteq> Event_recv then Some \<lparr>n_sent = None, n_count = count, n_print = [], n_sigval = ss\<rparr>
      else
        (case pkt ss of
           None \<Rightarrow> None
         | Some p0 \<Rightarrow>
             (case parse P p0 of
                (p, n, ip, port) \<Rightarrow>
                  (let shown = (if prints count then take n (data P p) else []);
                       p = push_head P 5 p;
                       p = store P echo_tag p
                   in Some \<lparr>n_sent = Some \<lparr>ps_fd = sockfd ss, ps_pkt = p, ps_ip = ip, ps_port = port\<rparr>,
                            n_count = count + 1, n_print = shown, n_sigval = ss\<lparr>pkt := None\<rparr>\<rparr>))))"

text \<open>\<open>udp_main\<close>. The second component is the value returned; it is unspecified (\<open>None\<close>) when the function
  falls off its end. \<open>sleep(-1)\<close> sleeps for as long as it can.\<close>

definition udp_serve :: "sock_env \<Rightarrow> int \<Rightarrow> sock_call list" where
  "udp_serve E fd =
     Sigevent fd # (if E (Sigevent fd) = - 1 then [] else [Sleep (- 1)]) @ [Close fd]"

definition udp_main :: "sock_env \<Rightarrow> sock_call list \<times> int option" where
  "udp_main E =
     (if E Ofp_init_local_call \<noteq> 0 then ([Ofp_init_local_call], Some (- 1))
      else
        (case udp_init_sock E (IP4 0 0 0 0) UDP_PORT of
           (cs, fd) \<Rightarrow>
             if fd \<le> 0 then ([Ofp_init_local_call, Sleep 3] @ cs, Some (- 1))
             else ([Ofp_init_local_call, Sleep 3] @ cs @ udp_serve E fd,
                   if E (Close fd) = - 1 then Some (- 1) else None)))"

section \<open>The TCP server\<close>

definition tcp_init_sock :: "sock_env \<Rightarrow> u32 \<Rightarrow> u16 \<Rightarrow> sock_call list \<times> int" where
  "tcp_init_sock E ip port =
     (let fd = E (Socket Stream); b = Bind fd ip (bswap16 port);
          cs = [Socket Stream, Setsockopt fd Reuseaddr, Setsockopt fd Reuseport, b]
      in if fd = - 1 then ([Socket Stream], - 1)
         else if E b = - 1 then (cs, - 1)
         else if E (Listen fd 10) = - 1 then (cs @ [Listen fd 10], - 1)
         else (cs @ [Listen fd 10], fd))"

text \<open>What \<open>ofp_accept\<close> delivers.\<close>

record accepted =
  acc_fd :: int
  acc_addr_len :: u32
  acc_ip :: u32
  acc_port :: u16

text \<open>The descriptor, with the address and port, which stay as they were on a failure.\<close>

definition accept_tcp :: "accepted \<Rightarrow> u32 \<Rightarrow> u16 \<Rightarrow> int \<times> u32 \<times> u16" where
  "accept_tcp r ip port =
     (if acc_fd r = - 1 then (- 1, ip, port)
      else if acc_addr_len r \<noteq> 16 then (- 1, ip, port)
      else (acc_fd r, acc_ip r, acc_port r))"

text \<open>The text sent; \<open>print_ip\<close> is \<open>ofp_print_ip_addr\<close>.\<close>

definition greeting :: "(u32 \<Rightarrow> string) \<Rightarrow> u32 \<Rightarrow> u16 \<Rightarrow> string" where
  "greeting print_ip ip port = ''You address: '' @ print_ip ip @ '':'' @ dec (unat (bswap16 port))"

text \<open>The server's loop over what \<open>ofp_accept\<close> delivers, call after call; without a returned value it
  is waiting for the next client.\<close>

fun tcp_loop :: "sock_env \<Rightarrow> (u32 \<Rightarrow> string) \<Rightarrow> int \<Rightarrow> accepted list \<Rightarrow> sock_call list \<times> int option" where
  "tcp_loop E print_ip fd [] = ([], None)"
| "tcp_loop E print_ip fd (r # rs) =
     (case accept_tcp r 0 0 of
        (cfd, ip, port) \<Rightarrow>
          (let cs = [Accept fd, Send cfd (greeting print_ip ip port), Close cfd]
           in if E (Close cfd) = - 1 then (cs, Some (- 1))
              else (case tcp_loop E print_ip fd rs of (ds, v) \<Rightarrow> (cs @ ds, v))))"

definition tcp_main :: "sock_env \<Rightarrow> (u32 \<Rightarrow> string) \<Rightarrow> accepted list \<Rightarrow> sock_call list \<times> int option" where
  "tcp_main E print_ip rs =
     (if E Ofp_init_local_call \<noteq> 0 then ([Ofp_init_local_call], Some (- 1))
      else
        (case tcp_init_sock E (IP4 0 0 0 0) TCP_PORT of
           (cs, fd) \<Rightarrow>
             if fd \<le> 0 then ([Ofp_init_local_call, Sleep 3] @ cs, Some (- 1))
             else (case tcp_loop E print_ip fd rs of (ds, v) \<Rightarrow> ([Ofp_init_local_call, Sleep 3] @ cs @ ds, v))))"

section \<open>The echo of a datagram\<close>

text \<open>ODP's packet operations as documented: \<open>push_head\<close> moves the data pointer back by \<open>n\<close> bytes if there
  are as many in the headroom and leaves the packet alone otherwise.\<close>

definition packet_laws :: "'p packet_ops \<Rightarrow> ('p \<Rightarrow> nat) \<Rightarrow> bool" where
  "packet_laws P room \<longleftrightarrow>
     (\<forall>p n. n \<le> room p \<longrightarrow>
        length (data P (push_head P n p)) = n + length (data P p) \<and> drop n (data P (push_head P n p)) = data P p)
     \<and> (\<forall>p n. room p < n \<longrightarrow> push_head P n p = p)
     \<and> (\<forall>p bs. length bs \<le> length (data P p) \<longrightarrow> data P (store P bs p) = bs @ drop (length bs) (data P p))"

lemma echo_tag_length [simp]: "length echo_tag = 5"
  by (simp add: echo_tag_def)

lemma packet_lawsD:
  assumes "packet_laws P room"
  shows "n \<le> room p \<Longrightarrow> length (data P (push_head P n p)) = n + length (data P p)"
    "n \<le> room p \<Longrightarrow> drop n (data P (push_head P n p)) = data P p"
    "room p < n \<Longrightarrow> push_head P n p = p"
    "length bs \<le> length (data P p) \<Longrightarrow> data P (store P bs p) = bs @ drop (length bs) (data P p)"
  using assms by (auto simp: packet_laws_def)

lemma tagged_data:
  assumes "packet_laws P room" "5 \<le> room p \<or> 5 \<le> length (data P p)"
  shows "data P (store P echo_tag (push_head P 5 p))
    = echo_tag @ (if 5 \<le> room p then data P p else drop 5 (data P p))"
proof (cases "5 \<le> room p")
  case True
  then show ?thesis using packet_lawsD [OF assms(1)] by simp
next
  case False
  then show ?thesis using assms(2) packet_lawsD [OF assms(1)] by simp
qed

text \<open>C38: A received datagram goes back to its sender with ECHO: in front of its payload, and its packet is
  given up. When the packet has no room in front of the payload, which the code does not look at, the
  tag overwrites the first five bytes of the payload.\<close>

theorem notify_echoes:
  assumes "packet_laws P room" "event ss = Event_recv" "pkt ss = Some p0" "parse P p0 = (p, n, ip, port)"
    "5 \<le> room p \<or> 5 \<le> length (data P p)"
  shows "case notify P ss count of
      None \<Rightarrow> False
    | Some r \<Rightarrow>
        (case n_sent r of
           None \<Rightarrow> False
         | Some s \<Rightarrow> ps_fd s = sockfd ss \<and> ps_ip s = ip \<and> ps_port s = port
             \<and> data P (ps_pkt s) = echo_tag @ (if 5 \<le> room p then data P p else drop 5 (data P p)))
        \<and> n_sigval r = ss\<lparr>pkt := None\<rparr>"
  using assms tagged_data [OF assms(1,5)] by (simp add: notify_def Let_def)

text \<open>A packet as its headroom and its data.\<close>

definition demo_packets :: "(u8 list \<times> u8 list) packet_ops" where
  "demo_packets =
     \<lparr>parse = (\<lambda>p. (p, length (snd p), 0x0100007F, 0x7017)),
      push_head = (\<lambda>n p. if n \<le> length (fst p)
        then (take (length (fst p) - n) (fst p), drop (length (fst p) - n) (fst p) @ snd p) else p),
      data = snd, store = (\<lambda>bs p. (fst p, bs @ drop (length bs) (snd p)))\<rparr>"

lemma demo_packet_laws: "packet_laws demo_packets (\<lambda>p. length (fst p))"
  by (auto simp: packet_laws_def demo_packets_def)

definition demo_sigval :: "(u8 list \<times> u8 list) sigval" where
  "demo_sigval = \<lparr>sockfd = 3, event = Event_recv, pkt = Some ([0, 0, 0], [1, 2, 3, 4, 5, 6, 7])\<rparr>"

theorem notify_echoes_witness:
  "case notify demo_packets demo_sigval 0 of
      None \<Rightarrow> False
    | Some r \<Rightarrow>
        (case n_sent r of
           None \<Rightarrow> False
         | Some s \<Rightarrow> ps_fd s = 3 \<and> ps_ip s = 0x0100007F \<and> ps_port s = 0x7017
             \<and> data demo_packets (ps_pkt s) = echo_tag @ [6, 7])
        \<and> n_sigval r = demo_sigval\<lparr>pkt := None\<rparr>"
  using notify_echoes [where P = demo_packets and room = "\<lambda>p. length (fst p)" and ss = demo_sigval
      and p = "([0, 0, 0], [1, 2, 3, 4, 5, 6, 7])" and n = 7 and ip = "0x0100007F" and port = "0x7017" and count = 0,
      OF demo_packet_laws]
  by (auto simp: demo_sigval_def demo_packets_def split: option.splits)

text \<open>Any other event leaves the packet with its owner.\<close>

lemma notify_ignores:
  "event ss \<noteq> Event_recv \<Longrightarrow>
     notify P ss count = Some \<lparr>n_sent = None, n_count = count, n_print = [], n_sigval = ss\<rparr>"
  by (simp add: notify_def)

section \<open>The receive buffer\<close>

text \<open>Given that the stack stores no more than the buffer holds, \<open>recvfrom_udp\<close> stays inside the buffer
  exactly when the datagram is shorter than the buffer: the NUL after a datagram that fills it is
  written one byte past its end.\<close>

theorem recvfrom_overrun:
  assumes "r_len r = int (length (r_data r))" "length (r_data r) \<le> length buf" "r_addr_len r = 16"
  shows "recvfrom_udp r buf count =
     (if length (r_data r) = length buf then None
      else Some \<lparr>rv_value = 0, rv_from = Some (r_ip r, r_port r),
                 rv_buf = r_data r @ 0 # drop (Suc (length (r_data r))) buf, rv_count = count + 1,
                 rv_print = (if prints count then r_data r else [])\<rparr>)"
proof (cases "length (r_data r) = length buf")
  case True
  then show ?thesis using assms by (simp add: recvfrom_udp_def fill_def Let_def)
next
  case False
  then have lt: "length (r_data r) < length buf" using assms(2) by simp
  have "(r_data r @ drop (length (r_data r)) buf)[length (r_data r) := 0]
      = r_data r @ 0 # drop (Suc (length (r_data r))) buf"
    using lt by (simp add: list_update_append flip: Cons_nth_drop_Suc)
  then show ?thesis using assms lt by (simp add: recvfrom_udp_def fill_def Let_def)
qed

theorem recvfrom_overrun_witness:
  "recvfrom_udp \<lparr>r_len = 2, r_data = [7, 8], r_ip = 1, r_port = 2, r_addr_len = 16\<rparr> [0, 0] 0 = None"
  using recvfrom_overrun [of "\<lparr>r_len = 2, r_data = [7, 8], r_ip = 1, r_port = 2, r_addr_len = 16\<rparr>" "[0, 0]" 0]
  by simp

section \<open>The clients of the TCP server\<close>

text \<open>A client that is accepted properly, and what the server does for it.\<close>

definition good_client :: "sock_env \<Rightarrow> accepted \<Rightarrow> bool" where
  "good_client E r \<longleftrightarrow> acc_fd r \<noteq> - 1 \<and> acc_addr_len r = 16 \<and> E (Close (acc_fd r)) \<noteq> - 1"

definition greet :: "(u32 \<Rightarrow> string) \<Rightarrow> int \<Rightarrow> accepted \<Rightarrow> sock_call list" where
  "greet print_ip fd r =
     [Accept fd, Send (acc_fd r) (greeting print_ip (acc_ip r) (acc_port r)), Close (acc_fd r)]"

lemma tcp_loop_good:
  "list_all (good_client E) rs \<Longrightarrow>
     tcp_loop E print_ip fd (rs @ rest) =
       (concat (map (greet print_ip fd) rs) @ fst (tcp_loop E print_ip fd rest), snd (tcp_loop E print_ip fd rest))"
proof (induction rs)
  case (Cons r rs)
  then show ?case
    by (cases "tcp_loop E print_ip fd rest") (simp add: good_client_def greet_def accept_tcp_def)
qed simp

text \<open>Clients that are accepted properly are each sent their own address once and closed, in the order
  they come, and the server goes on waiting.\<close>

theorem tcp_greets:
  assumes "list_all (good_client E) rs"
  shows "tcp_loop E print_ip fd rs = (concat (map (greet print_ip fd) rs), None)"
  using tcp_loop_good [OF assms, of print_ip fd "[]"] by simp

definition demo_print_ip :: "u32 \<Rightarrow> string" where
  "demo_print_ip ip = dec (unat (ip AND 0xFF)) @ ''.0.0.0''"

theorem tcp_greets_witness:
  "tcp_loop (\<lambda>c. 0) demo_print_ip 4
     [\<lparr>acc_fd = 5, acc_addr_len = 16, acc_ip = 10, acc_port = 0x7017\<rparr>,
      \<lparr>acc_fd = 6, acc_addr_len = 16, acc_ip = 11, acc_port = 0x0100\<rparr>]
   = ([Accept 4, Send 5 (greeting demo_print_ip 10 0x7017), Close 5,
       Accept 4, Send 6 (greeting demo_print_ip 11 0x0100), Close 6], None)"
  using tcp_greets [of "\<lambda>c. 0" "[\<lparr>acc_fd = 5, acc_addr_len = 16, acc_ip = 10, acc_port = 0x7017\<rparr>,
      \<lparr>acc_fd = 6, acc_addr_len = 16, acc_ip = 11, acc_port = 0x0100\<rparr>]" demo_print_ip 4]
  by (simp add: good_client_def greet_def)

text \<open>C39: The first client that is not accepted ends the server: its loop goes on with the descriptor -1, which
  cannot be closed, and returns without closing the listening socket.\<close>

theorem tcp_failed_accept_ends:
  assumes "list_all (good_client E) rs" "acc_fd r = - 1 \<or> acc_addr_len r \<noteq> 16" "E (Close (- 1)) = - 1"
  shows "tcp_loop E print_ip fd (rs @ r # rest) =
    (concat (map (greet print_ip fd) rs) @ [Accept fd, Send (- 1) (greeting print_ip 0 0), Close (- 1)], Some (- 1))"
  using tcp_loop_good [OF assms(1)] assms(2,3) by (auto simp: accept_tcp_def)

theorem tcp_failed_accept_ends_witness:
  "tcp_loop (\<lambda>c. if c = Close (- 1) then - 1 else 0) demo_print_ip 4
     [\<lparr>acc_fd = 5, acc_addr_len = 28, acc_ip = 10, acc_port = 0x7017\<rparr>,
      \<lparr>acc_fd = 6, acc_addr_len = 16, acc_ip = 11, acc_port = 0x0100\<rparr>]
   = ([Accept 4, Send (- 1) (greeting demo_print_ip 0 0), Close (- 1)], Some (- 1))"
  using tcp_failed_accept_ends [of "\<lambda>c. if c = Close (- 1) then - 1 else 0" "[]"
      "\<lparr>acc_fd = 5, acc_addr_len = 28, acc_ip = 10, acc_port = 0x7017\<rparr>" demo_print_ip 4
      "[\<lparr>acc_fd = 6, acc_addr_len = 16, acc_ip = 11, acc_port = 0x0100\<rparr>]"]
  by simp

text \<open>The text fits the buffer of 1024 bytes.\<close>

lemma length_dec: "n < 10 ^ k \<Longrightarrow> 0 < k \<Longrightarrow> length (dec n) \<le> k"
proof (induction k arbitrary: n)
  case (Suc k)
  show ?case
  proof (cases "n < 10")
    case False
    then have "0 < k" using Suc.prems by (cases k) auto
    then show ?thesis using Suc.IH [of "n div 10"] Suc.prems False by (simp add: dec.simps [of n])
  qed (simp add: dec.simps [of n])
qed simp

lemma greeting_fits:
  assumes "length (print_ip ip) \<le> 15"
  shows "length (greeting print_ip ip port) + 1 \<le> 1024"
proof -
  have "unat (bswap16 port) < 65536" using unsigned_less [of "bswap16 port", where 'a = nat] by simp
  then have "unat (bswap16 port) < 10 ^ 5" by simp
  then have "length (dec (unat (bswap16 port))) \<le> 5" using length_dec [of _ 5] by simp
  then show ?thesis using assms by (simp add: greeting_def)
qed

section \<open>Sockets that stay open\<close>

text \<open>A socket that could not be bound is left open, and the port is 0.0.0.0:6000 or 0.0.0.0:5000.\<close>

lemma udp_bind_fails:
  "E (Socket Dgram) \<noteq> - 1 \<Longrightarrow> E (Bind (E (Socket Dgram)) ip (bswap16 port)) = - 1 \<Longrightarrow>
     udp_init_sock E ip port = ([Socket Dgram, Bind (E (Socket Dgram)) ip (bswap16 port)], - 1)"
  by (simp add: udp_init_sock_def)

lemma any_address: "IP4 0 0 0 0 = 0"
  by (simp add: IP4_def)

lemma ip4_bytes: "IP4 192 168 100 129 = 0x8164A8C0"
  by (simp add: IP4_def)

end
