(* ===== verification/UdpUri.thy ===== *)
theory UdpUri
  imports Prelude
begin

text \<open>
  The address and URI parsers of \<open>src/src/udp-echo/main.c\<close>: \<open>unformat_ip4_address\<close>,
  \<open>unformat_ip6_address\<close> and \<open>unformat_uri\<close>.

  They read their input through the VPP infrastructure library, which is not part of the
  repository: its operations are the fields of \<open>unformat_ops\<close>, over an input of any type.
  The local array \<open>hex_quads\<close> is not initialised by the code; the model starts it from an
  arbitrary \<open>junk\<close>. A write outside the array is the result \<open>Overrun\<close>.
\<close>

section \<open>The input\<close>

record 'i unformat_ops =
  unformat_get_input :: "'i \<Rightarrow> u64 \<times> 'i"
  unformat_put_input :: "'i \<Rightarrow> 'i"
  end_of_input :: u64
  unformat_dotted :: "'i \<Rightarrow> (u32 \<times> u32 \<times> u32 \<times> u32) option \<times> 'i"

section \<open>IPv4 addresses\<close>

definition unformat_ip4_address :: "'i unformat_ops \<Rightarrow> 'i \<Rightarrow> u8 list option \<times> 'i" where
  "unformat_ip4_address U input =
     (case unformat_dotted U input of
        (None, input') \<Rightarrow> (None, input')
      | (Some (a0, a1, a2, a3), input') \<Rightarrow>
          if a0 \<ge> 256 \<or> a1 \<ge> 256 \<or> a2 \<ge> 256 \<or> a3 \<ge> 256 then (None, input')
          else (Some [ucast a0, ucast a1, ucast a2, ucast a3], input'))"

section \<open>IPv6 addresses\<close>

abbreviation (input) N_QUADS :: nat where
  "N_QUADS \<equiv> 8"

record ip6_scan =
  hex_quads :: "u16 list"
  hex_quad :: u64
  n_hex_quads :: nat
  n_hex_digits :: nat
  n_colon :: nat
  double_colon_index :: nat

datatype 'a outcome = Value 'a | Refused | Overrun

definition array_set :: "nat \<Rightarrow> 'a \<Rightarrow> 'a list \<Rightarrow> 'a list outcome" where
  "array_set k v xs = (if k < length xs then Value (xs[k := v]) else Overrun)"

text \<open>\<open>hex_quads[n_hex_quads++] = hex_quad\<close>.\<close>

definition push_quad :: "ip6_scan \<Rightarrow> ip6_scan outcome" where
  "push_quad s =
     (case array_set (n_hex_quads s) (ucast (hex_quad s)) (hex_quads s) of
        Value qs \<Rightarrow> Value (s\<lparr>hex_quads := qs, n_hex_quads := Suc (n_hex_quads s)\<rparr>)
      | Refused \<Rightarrow> Refused
      | Overrun \<Rightarrow> Overrun)"

text \<open>The value of a hexadecimal digit, 16 for any other character.\<close>

definition hex_digit_of :: "u64 \<Rightarrow> u64" where
  "hex_digit_of c =
     (if 0x30 \<le> c \<and> c \<le> 0x39 then c - 0x30
      else if 0x61 \<le> c \<and> c \<le> 0x66 then c + 10 - 0x61
      else if 0x41 \<le> c \<and> c \<le> 0x46 then c + 10 - 0x41
      else 16)"

abbreviation (input) COLON :: u64 where
  "COLON \<equiv> 0x3A"

text \<open>One turn of the loop on a character: \<open>None\<close> is the branch that puts the character
  back and leaves the loop.\<close>

definition ip6_char :: "u64 \<Rightarrow> ip6_scan \<Rightarrow> ip6_scan outcome option" where
  "ip6_char c s =
     (if hex_digit_of c \<ge> 16 \<and> \<not> (c = COLON \<and> n_colon s < 2) then None
      else Some
       (let s = (if hex_digit_of c < 16 then s else s\<lparr>n_colon := Suc (n_colon s)\<rparr>)
        in if n_hex_quads s \<ge> N_QUADS then Refused
           else if hex_digit_of c < 16 \<and> n_hex_digits s \<ge> 4 then Refused
           else
             (let s = (if hex_digit_of c < 16
                       then s\<lparr>hex_quad := push_bit 4 (hex_quad s) OR hex_digit_of c,
                              n_colon := 0, n_hex_digits := Suc (n_hex_digits s)\<rparr>
                       else s)
              in if n_colon s = 2 \<and> double_colon_index s < N_QUADS then Refused
                 else
                   (let s = (if n_colon s = 2 then s\<lparr>double_colon_index := n_hex_quads s\<rparr> else s)
                    in if n_colon s > 0 \<and> n_hex_digits s > 0
                       then (case push_quad s of
                               Value s' \<Rightarrow> Value (s'\<lparr>hex_quad := 0, n_hex_digits := 0\<rparr>)
                             | r \<Rightarrow> r)
                       else Value s))))"

definition ip6_measure :: "ip6_scan \<Rightarrow> nat" where
  "ip6_measure s =
     15 * (N_QUADS - n_hex_quads s) + 3 * (4 - n_hex_digits s) + (2 - n_colon s)"

lemma push_quad_Value:
  "push_quad s = Value s' \<Longrightarrow>
     n_hex_quads s < length (hex_quads s) \<and>
     s' = s\<lparr>hex_quads := (hex_quads s)[n_hex_quads s := ucast (hex_quad s)],
            n_hex_quads := Suc (n_hex_quads s)\<rparr>"
  by (auto simp: push_quad_def array_set_def split: if_splits)

text \<open>Every turn that goes on makes progress, whatever the input delivers.\<close>

lemma ip6_char_progress:
  assumes "ip6_char c s = Some (Value s')"
  shows "ip6_measure s' < ip6_measure s"
proof (cases "hex_digit_of c < 16")
  case True
  with assms show ?thesis
    by (auto simp: ip6_char_def ip6_measure_def Let_def split: if_splits)
next
  case False
  with assms show ?thesis
    by (auto simp: ip6_char_def ip6_measure_def Let_def not_less split: if_splits outcome.splits
        dest!: push_quad_Value)
qed

function ip6_loop :: "'i unformat_ops \<Rightarrow> 'i \<Rightarrow> ip6_scan \<Rightarrow> ip6_scan outcome \<times> 'i" where
  "ip6_loop U input s =
     (case unformat_get_input U input of
        (c, input') \<Rightarrow>
          if c = end_of_input U then (Value s, input')
          else (case ip6_char c s of
                  None \<Rightarrow> (Value s, unformat_put_input U input')
                | Some (Value s') \<Rightarrow> ip6_loop U input' s'
                | Some r \<Rightarrow> (r, input')))"
  by pat_completeness auto
termination
  by (relation "measure (\<lambda>(U, input, s). ip6_measure s)") (auto simp: ip6_char_progress)

declare ip6_loop.simps [simp del]

text \<open>The expansion of \<open>::\<close>: the quads after it move up from the last one down, then the
  gap is filled with zeros.\<close>

fun shift_quads :: "nat \<Rightarrow> nat \<Rightarrow> nat \<Rightarrow> u16 list \<Rightarrow> u16 list outcome" where
  "shift_quads dci n_zero 0 qs = Value qs"
| "shift_quads dci n_zero (Suc i) qs =
     (if i \<ge> dci then
        (case array_set (n_zero + i) (qs ! i) qs of
           Value qs' \<Rightarrow> shift_quads dci n_zero i qs'
         | r \<Rightarrow> r)
      else Value qs)"

fun zero_quads :: "nat \<Rightarrow> nat list \<Rightarrow> u16 list \<Rightarrow> u16 list outcome" where
  "zero_quads dci [] qs = Value qs"
| "zero_quads dci (i # is) qs =
     (case array_set (dci + i) 0 qs of
        Value qs' \<Rightarrow> zero_quads dci is qs'
      | r \<Rightarrow> r)"

definition ip6_expand :: "ip6_scan \<Rightarrow> ip6_scan outcome" where
  "ip6_expand s =
     (if double_colon_index s < N_QUADS then
        (let n_zero = N_QUADS - n_hex_quads s
         in case shift_quads (double_colon_index s) n_zero (n_hex_quads s) (hex_quads s) of
              Value qs \<Rightarrow>
                (case zero_quads (double_colon_index s) [0..<n_zero] qs of
                   Value qs' \<Rightarrow> Value (s\<lparr>hex_quads := qs', n_hex_quads := N_QUADS\<rparr>)
                 | Refused \<Rightarrow> Refused
                 | Overrun \<Rightarrow> Overrun)
            | Refused \<Rightarrow> Refused
            | Overrun \<Rightarrow> Overrun)
      else Value s)"

definition ip6_finish :: "ip6_scan \<Rightarrow> u16 list outcome" where
  "ip6_finish s =
     (case (if n_hex_digits s > 0 then push_quad s else Value s) of
        Value s1 \<Rightarrow>
          (case ip6_expand s1 of
             Value s2 \<Rightarrow>
               (if n_hex_quads s2 < N_QUADS then Refused
                else Value (map bswap16 (take N_QUADS (hex_quads s2))))
           | Refused \<Rightarrow> Refused
           | Overrun \<Rightarrow> Overrun)
      | Refused \<Rightarrow> Refused
      | Overrun \<Rightarrow> Overrun)"

definition ip6_start :: "u16 list \<Rightarrow> ip6_scan" where
  "ip6_start junk =
     \<lparr>hex_quads = junk, hex_quad = 0, n_hex_quads = 0, n_hex_digits = 0, n_colon = 0,
      double_colon_index = N_QUADS\<rparr>"

definition unformat_ip6_address ::
    "'i unformat_ops \<Rightarrow> u16 list \<Rightarrow> 'i \<Rightarrow> u16 list outcome \<times> 'i" where
  "unformat_ip6_address U junk input =
     (case ip6_loop U input (ip6_start junk) of
        (Value s, input') \<Rightarrow> (ip6_finish s, input')
      | (Refused, input') \<Rightarrow> (Refused, input')
      | (Overrun, input') \<Rightarrow> (Overrun, input'))"

section \<open>The scan stays inside the array\<close>

definition scan_ok :: "ip6_scan \<Rightarrow> bool" where
  "scan_ok s \<longleftrightarrow>
     length (hex_quads s) = N_QUADS \<and> n_hex_quads s \<le> N_QUADS \<and> n_hex_digits s \<le> 4 \<and>
     (n_hex_digits s > 0 \<longrightarrow> n_hex_quads s < N_QUADS) \<and>
     (double_colon_index s < N_QUADS \<longrightarrow> double_colon_index s \<le> n_hex_quads s)"

lemma scan_ok_start [simp]: "length junk = N_QUADS \<Longrightarrow> scan_ok (ip6_start junk)"
  by (simp add: scan_ok_def ip6_start_def)

lemma push_quad_ok:
  "scan_ok s \<Longrightarrow> n_hex_quads s < N_QUADS \<Longrightarrow>
     push_quad s = Value (s\<lparr>hex_quads := (hex_quads s)[n_hex_quads s := ucast (hex_quad s)],
                            n_hex_quads := Suc (n_hex_quads s)\<rparr>)"
  by (simp add: push_quad_def array_set_def scan_ok_def)

lemma ip6_char_ok:
  assumes "scan_ok s" and "ip6_char c s = Some r"
  shows "r \<noteq> Overrun" and "r = Value s' \<Longrightarrow> scan_ok s'"
  using assms
  by (auto simp: ip6_char_def Let_def scan_ok_def push_quad_def array_set_def
      split: if_splits outcome.splits)

lemma ip6_loop_ok:
  assumes "scan_ok s" and "ip6_loop U i s = (r, i')"
  shows "r \<noteq> Overrun \<and> (\<forall>s'. r = Value s' \<longrightarrow> scan_ok s')"
  using assms
proof (induction U i s arbitrary: r i' rule: ip6_loop.induct)
  case (1 U i s)
  obtain c j where get: "unformat_get_input U i = (c, j)" by fastforce
  show ?case
  proof (cases "c = end_of_input U \<or> ip6_char c s = None")
    case True
    with "1.prems" get show ?thesis by (auto simp: ip6_loop.simps [of U i s] split: if_splits)
  next
    case False
    then obtain q where q: "ip6_char c s = Some q" by auto
    show ?thesis
    proof (cases q)
      case (Value t)
      with "1.prems" get False q have run: "ip6_loop U j t = (r, i')"
        by (simp add: ip6_loop.simps [of U i s])
      have "scan_ok t" using ip6_char_ok(2) [OF "1.prems"(1) q] Value by simp
      from "1.IH" [OF get [symmetric] _ q Value this run] False show ?thesis by blast
    qed (use "1.prems" get False q ip6_char_ok(1) [OF "1.prems"(1) q]
         in \<open>auto simp: ip6_loop.simps [of U i s]\<close>)
  qed
qed

lemma shift_quads_nth:
  assumes "k + z \<le> length qs"
  shows "\<exists>qs'. shift_quads d z k qs = Value qs' \<and> length qs' = length qs \<and>
           (\<forall>j. qs' ! j = (if d + z \<le> j \<and> j < k + z then qs ! (j - z) else qs ! j))"
  using assms
proof (induction k arbitrary: qs)
  case (Suc k)
  show ?case
  proof (cases "d \<le> k")
    case True
    define q1 where "q1 = qs[z + k := qs ! k]"
    have len: "length q1 = length qs" by (simp add: q1_def)
    from Suc.IH [of q1] Suc.prems len obtain q2 where
      q2: "shift_quads d z k q1 = Value q2" "length q2 = length qs"
        "\<And>j. q2 ! j = (if d + z \<le> j \<and> j < k + z then q1 ! (j - z) else q1 ! j)"
      by auto
    have "\<forall>j. q2 ! j = (if d + z \<le> j \<and> j < Suc k + z then qs ! (j - z) else qs ! j)"
      using q2(3) Suc.prems True by (auto simp: q1_def nth_list_update)
    with q2 True Suc.prems show ?thesis by (simp add: array_set_def q1_def)
  qed auto
qed auto

lemma zero_quads_nth:
  assumes "\<And>i. i \<in> set is \<Longrightarrow> d + i < length qs"
  shows "\<exists>qs'. zero_quads d is qs = Value qs' \<and> length qs' = length qs \<and>
           (\<forall>j < length qs. qs' ! j = (if d \<le> j \<and> j - d \<in> set is then 0 else qs ! j))"
  using assms
proof (induction "is" arbitrary: qs)
  case (Cons i "is")
  define q1 where "q1 = qs[d + i := 0]"
  have len: "length q1 = length qs" by (simp add: q1_def)
  from Cons.IH [of q1] Cons.prems len obtain q2 where
    q2: "zero_quads d is q1 = Value q2" "length q2 = length qs"
      "\<And>j. j < length qs \<Longrightarrow> q2 ! j = (if d \<le> j \<and> j - d \<in> set is then 0 else q1 ! j)"
    by auto
  have "\<forall>j < length qs. q2 ! j = (if d \<le> j \<and> j - d \<in> set (i # is) then 0 else qs ! j)"
    using q2(3) by (auto simp: q1_def nth_list_update)
  with q2 Cons.prems show ?case by (simp add: array_set_def q1_def)
qed simp

text \<open>The expansion in one equation: what was before the double colon, zeros, what was
  after it.\<close>

lemma ip6_expand_eq:
  assumes ok: "scan_ok s" and d: "double_colon_index s < N_QUADS"
  defines "vs \<equiv> take (n_hex_quads s) (hex_quads s)"
  shows "ip6_expand s = Value (s\<lparr>hex_quads := take (double_colon_index s) vs
             @ replicate (N_QUADS - n_hex_quads s) 0 @ drop (double_colon_index s) vs,
           n_hex_quads := N_QUADS\<rparr>)"
proof -
  define n where "n = n_hex_quads s"
  define z where "z = N_QUADS - n"
  define dc where "dc = double_colon_index s"
  have b: "n \<le> N_QUADS" "dc \<le> n" "length (hex_quads s) = N_QUADS" "n + z = N_QUADS"
    using ok d by (auto simp: scan_ok_def n_def dc_def z_def)
  obtain q1 where q1: "shift_quads dc z n (hex_quads s) = Value q1" "length q1 = N_QUADS"
    "\<And>j. q1 ! j = (if dc + z \<le> j \<and> j < n + z then hex_quads s ! (j - z) else hex_quads s ! j)"
    using shift_quads_nth [of n z "hex_quads s" dc] b by auto
  obtain q2 where q2: "zero_quads dc [0..<z] q1 = Value q2" "length q2 = N_QUADS"
    "\<And>j. j < N_QUADS \<Longrightarrow> q2 ! j = (if dc \<le> j \<and> j - dc \<in> set [0..<z] then 0 else q1 ! j)"
    using zero_quads_nth [of "[0..<z]" dc q1] b q1(2) by auto
  have "q2 = take dc vs @ replicate z 0 @ drop dc vs"
  proof (rule nth_equalityI)
    show "length q2 = length (take dc vs @ replicate z 0 @ drop dc vs)"
      using b q2(2) by (simp add: vs_def n_def [symmetric])
    fix j assume "j < length q2"
    with b q2 q1 show "q2 ! j = (take dc vs @ replicate z 0 @ drop dc vs) ! j"
      by (auto simp: vs_def n_def [symmetric] nth_append min_def algebra_simps)
  qed
  with q1(1) q2(1) d show ?thesis
    by (simp add: ip6_expand_def Let_def n_def z_def dc_def)
qed

lemma ip6_expand_ok:
  "scan_ok s \<Longrightarrow> \<exists>s'. ip6_expand s = Value s' \<and> length (hex_quads s') = N_QUADS"
proof (cases "double_colon_index s < N_QUADS")
  case True
  assume ok: "scan_ok s"
  then show ?thesis
    using ip6_expand_eq [OF ok True] True by (auto simp: scan_ok_def)
qed (simp add: ip6_expand_def scan_ok_def)

lemma scan_ok_push:
  "scan_ok s \<Longrightarrow> n_hex_digits s > 0 \<Longrightarrow>
     scan_ok (s\<lparr>hex_quads := (hex_quads s)[n_hex_quads s := v],
               n_hex_quads := Suc (n_hex_quads s), n_hex_digits := 0\<rparr>)"
  by (auto simp: scan_ok_def)

section \<open>The uninitialised array never shows\<close>

definition trim :: "ip6_scan \<Rightarrow> ip6_scan" where
  "trim s = s\<lparr>hex_quads := take (n_hex_quads s) (hex_quads s)\<rparr>"

definition same_scan :: "ip6_scan \<Rightarrow> ip6_scan \<Rightarrow> bool" where
  "same_scan s t \<longleftrightarrow> scan_ok s \<and> scan_ok t \<and> trim s = trim t"

lemma same_scan_fields:
  assumes "same_scan s t"
  shows "hex_quad t = hex_quad s" "n_hex_quads t = n_hex_quads s"
    "n_hex_digits t = n_hex_digits s" "n_colon t = n_colon s"
    "double_colon_index t = double_colon_index s"
    "take (n_hex_quads s) (hex_quads t) = take (n_hex_quads s) (hex_quads s)"
proof -
  have e: "trim s = trim t" using assms by (simp add: same_scan_def)
  from arg_cong [OF e, of hex_quad] arg_cong [OF e, of n_hex_quads]
    arg_cong [OF e, of n_hex_digits] arg_cong [OF e, of n_colon]
    arg_cong [OF e, of double_colon_index] arg_cong [OF e, of hex_quads]
  show "hex_quad t = hex_quad s" "n_hex_quads t = n_hex_quads s"
    "n_hex_digits t = n_hex_digits s" "n_colon t = n_colon s"
    "double_colon_index t = double_colon_index s"
    "take (n_hex_quads s) (hex_quads t) = take (n_hex_quads s) (hex_quads s)"
    by (simp_all add: trim_def)
qed

lemma same_scanI:
  "scan_ok s \<Longrightarrow> scan_ok t \<Longrightarrow> hex_quad t = hex_quad s \<Longrightarrow> n_hex_quads t = n_hex_quads s \<Longrightarrow>
   n_hex_digits t = n_hex_digits s \<Longrightarrow> n_colon t = n_colon s \<Longrightarrow>
   double_colon_index t = double_colon_index s \<Longrightarrow>
   take (n_hex_quads s) (hex_quads t) = take (n_hex_quads s) (hex_quads s) \<Longrightarrow> same_scan s t"
  by (cases s; cases t) (simp add: same_scan_def trim_def)

lemma take_Suc_update: "n < length xs \<Longrightarrow> take (Suc n) (xs[n := v]) = take n xs @ [v]"
  by (simp add: take_Suc_conv_app_nth)

text \<open>What the next turn makes of two scans that agree, written out once.\<close>

fun outcome_rel :: "('a \<Rightarrow> 'b \<Rightarrow> bool) \<Rightarrow> 'a outcome \<Rightarrow> 'b outcome \<Rightarrow> bool" where
  "outcome_rel R (Value x) (Value y) = R x y"
| "outcome_rel R Refused Refused = True"
| "outcome_rel R Overrun Overrun = True"
| "outcome_rel R _ _ = False"

lemma ip6_char_same:
  assumes st: "same_scan s t"
  shows "rel_option (outcome_rel same_scan) (ip6_char c s) (ip6_char c t)"
proof (cases "ip6_char c s")
  case None
  with same_scan_fields [OF st] show ?thesis
    by (auto simp: ip6_char_def Let_def split: if_splits)
next
  case (Some q)
  have ok: "scan_ok s" "scan_ok t" using st by (auto simp: same_scan_def)
  obtain q' where q': "ip6_char c t = Some q'"
    using Some same_scan_fields [OF st] by (auto simp: ip6_char_def Let_def split: if_splits)
  note f = same_scan_fields [OF st]
  have len: "length (hex_quads s) = N_QUADS" "length (hex_quads t) = N_QUADS"
    using ok by (auto simp: scan_ok_def)
  have nov: "q \<noteq> Overrun" "q' \<noteq> Overrun"
    using ip6_char_ok(1) ok Some q' by blast+
  have ref: "q = Refused \<longleftrightarrow> q' = Refused"
    using Some q' f nov len
    by (auto simp: ip6_char_def Let_def push_quad_def array_set_def split: if_splits)
  show ?thesis
  proof (cases "q = Refused")
    case True
    with ref Some q' show ?thesis by simp
  next
    case False
    with ref nov obtain u v where uv: "q = Value u" "q' = Value v"
      by (cases q; cases q') auto
    have "scan_ok u" "scan_ok v" using ip6_char_ok(2) ok Some q' uv by blast+
    then have "same_scan u v"
    proof (rule same_scanI)
      show "hex_quad v = hex_quad u" "n_hex_quads v = n_hex_quads u"
        "n_hex_digits v = n_hex_digits u" "n_colon v = n_colon u"
        "double_colon_index v = double_colon_index u"
        "take (n_hex_quads u) (hex_quads v) = take (n_hex_quads u) (hex_quads u)"
        using Some q' uv f len
        by (auto simp: ip6_char_def Let_def push_quad_def array_set_def take_Suc_update
            split: if_splits)
    qed
    with Some q' uv show ?thesis by simp
  qed
qed

lemma ip6_loop_same:
  assumes "same_scan s t"
  shows "outcome_rel same_scan (fst (ip6_loop U i s)) (fst (ip6_loop U i t)) \<and>
         snd (ip6_loop U i s) = snd (ip6_loop U i t)"
  using assms
proof (induction U i s arbitrary: t rule: ip6_loop.induct)
  case (1 U i s)
  obtain c j where get: "unformat_get_input U i = (c, j)" by fastforce
  note unf = ip6_loop.simps [of U i s] ip6_loop.simps [of U i t]
  note rel = ip6_char_same [OF "1.prems", of c]
  show ?case
  proof (cases "c = end_of_input U \<or> ip6_char c s = None")
    case True
    then show ?thesis using "1.prems" get unf rel by (auto split: if_splits)
  next
    case False
    then obtain q where q: "ip6_char c s = Some q" by auto
    with rel obtain q' where q': "ip6_char c t = Some q'" "outcome_rel same_scan q q'"
      by (auto simp: option_rel_Some1)
    show ?thesis
    proof (cases q)
      case (Value u)
      with q'(2) obtain v where v: "q' = Value v" "same_scan u v" by (cases q') auto
      from "1.IH" [OF get [symmetric] _ q Value v(2)] False get q q'(1) v(1) Value unf
      show ?thesis by simp
    next
      case Refused
      with q'(2) have "q' = Refused" by (cases q') auto
      with Refused get False q q'(1) unf show ?thesis by simp
    next
      case Overrun
      with q'(2) have "q' = Overrun" by (cases q') auto
      with Overrun get False q q'(1) unf show ?thesis by simp
    qed
  qed
qed

text \<open>The result of the last phase as a function of the quads scanned.\<close>

definition scanned :: "ip6_scan \<Rightarrow> u16 list" where
  "scanned s = take (n_hex_quads s) (hex_quads s)
     @ (if n_hex_digits s > 0 then [ucast (hex_quad s)] else [])"

lemma ip6_finish_eq:
  assumes ok: "scan_ok s"
  shows "ip6_finish s =
    (let vs = scanned s; d = double_colon_index s
     in if d < N_QUADS
        then Value (map bswap16 (take d vs @ replicate (N_QUADS - length vs) 0 @ drop d vs))
        else if length vs < N_QUADS then Refused
        else Value (map bswap16 vs))"
proof -
  define s1 where "s1 = (if n_hex_digits s > 0
     then s\<lparr>hex_quads := (hex_quads s)[n_hex_quads s := ucast (hex_quad s)],
            n_hex_quads := Suc (n_hex_quads s), n_hex_digits := 0\<rparr> else s)"
  have ok1: "scan_ok s1" using ok scan_ok_push [OF ok] by (simp add: s1_def)
  have vs: "scanned s = take (n_hex_quads s1) (hex_quads s1)" "length (scanned s) = n_hex_quads s1"
    "length (hex_quads s1) = N_QUADS" "n_hex_quads s1 \<le> N_QUADS"
    and dd: "double_colon_index s1 = double_colon_index s"
    using ok ok1 by (auto simp: scanned_def s1_def scan_ok_def take_Suc_update)
  have push: "(if n_hex_digits s > 0 then push_quad s else Value s)
      = Value (s1\<lparr>n_hex_digits := n_hex_digits s\<rparr>)"
    using ok push_quad_ok [OF ok] by (auto simp: s1_def scan_ok_def)
  let ?s2 = "s1\<lparr>n_hex_digits := n_hex_digits s\<rparr>"
  have fin: "ip6_finish s = (case ip6_expand ?s2 of
        Value s3 \<Rightarrow> if n_hex_quads s3 < N_QUADS then Refused
                    else Value (map bswap16 (take N_QUADS (hex_quads s3)))
      | Refused \<Rightarrow> Refused | Overrun \<Rightarrow> Overrun)"
    unfolding ip6_finish_def push by simp
  have exp: "ip6_expand ?s2 = (case ip6_expand s1 of
        Value s3 \<Rightarrow> Value (s3\<lparr>n_hex_digits := n_hex_digits s\<rparr>)
      | Refused \<Rightarrow> Refused | Overrun \<Rightarrow> Overrun)"
    by (auto simp: ip6_expand_def Let_def split: outcome.splits)
  show ?thesis
  proof (cases "double_colon_index s < N_QUADS")
    case True
    have d1: "double_colon_index s \<le> length (scanned s)"
      using ok1 True dd vs(2) by (auto simp: scan_ok_def)
    from ip6_expand_eq [OF ok1] True dd fin exp vs d1 show ?thesis by (simp add: Let_def)
  next
    case False
    with fin exp dd vs show ?thesis by (simp add: ip6_expand_def Let_def)
  qed
qed

section \<open>Addresses as text\<close>

text \<open>A group is one to four hexadecimal digits, of either case; a text of groups puts a
  colon between two of them.\<close>

definition is_group :: "u64 list \<Rightarrow> bool" where
  "is_group g \<longleftrightarrow> 0 < length g \<and> length g \<le> 4 \<and> (\<forall>c \<in> set g. hex_digit_of c < 16)"

definition group_val :: "u64 list \<Rightarrow> u64" where
  "group_val g = foldl (\<lambda>v c. push_bit 4 v OR hex_digit_of c) 0 g"

abbreviation group_quad :: "u64 list \<Rightarrow> u16" where
  "group_quad g \<equiv> ucast (group_val g)"

fun groups_text :: "u64 list list \<Rightarrow> u64 list" where
  "groups_text [] = []"
| "groups_text [g] = g"
| "groups_text (g # gs) = g @ COLON # groups_text gs"

text \<open>\<open>delivers U i cs j\<close>: reading from \<open>i\<close> gives the characters \<open>cs\<close> and leaves \<open>j\<close>.\<close>

fun delivers :: "'i unformat_ops \<Rightarrow> 'i \<Rightarrow> u64 list \<Rightarrow> 'i \<Rightarrow> bool" where
  "delivers U i [] j \<longleftrightarrow> i = j"
| "delivers U i (c # cs) j \<longleftrightarrow>
     (case unformat_get_input U i of
        (c', i') \<Rightarrow> c' = c \<and> c \<noteq> end_of_input U \<and> delivers U i' cs j)"

text \<open>Where the address stops: the input ends, or a character follows that is neither a
  digit nor a colon (and is put back).\<close>

definition address_ends :: "'i unformat_ops \<Rightarrow> 'i \<Rightarrow> bool" where
  "address_ends U j \<longleftrightarrow>
     (case unformat_get_input U j of
        (c, j') \<Rightarrow> c = end_of_input U \<or> (hex_digit_of c \<ge> 16 \<and> c \<noteq> COLON))"

definition after_address :: "'i unformat_ops \<Rightarrow> 'i \<Rightarrow> 'i" where
  "after_address U j =
     (case unformat_get_input U j of
        (c, j') \<Rightarrow> if c = end_of_input U then j' else unformat_put_input U j')"

fun ip6_run :: "u64 list \<Rightarrow> ip6_scan \<Rightarrow> ip6_scan option" where
  "ip6_run [] s = Some s"
| "ip6_run (c # cs) s =
     (case ip6_char c s of Some (Value s') \<Rightarrow> ip6_run cs s' | _ \<Rightarrow> None)"

lemma ip6_run_append:
  "ip6_run (xs @ ys) s = (case ip6_run xs s of None \<Rightarrow> None | Some s' \<Rightarrow> ip6_run ys s')"
  by (induction xs arbitrary: s) (auto split: option.splits outcome.splits)

lemma ip6_loop_run:
  "delivers U i cs j \<Longrightarrow> ip6_run cs s = Some s' \<Longrightarrow> ip6_loop U i s = ip6_loop U j s'"
proof (induction cs arbitrary: i s)
  case (Cons c cs)
  then obtain i' t where "unformat_get_input U i = (c, i')" "c \<noteq> end_of_input U"
    "delivers U i' cs j" "ip6_char c s = Some (Value t)" "ip6_run cs t = Some s'"
    by (auto split: option.splits outcome.splits)
  with Cons.IH [of i' t] show ?case by (simp add: ip6_loop.simps [of U i s])
qed simp

lemma ip6_loop_ends:
  "address_ends U j \<Longrightarrow> ip6_loop U j s = (Value s, after_address U j)"
  by (auto simp: ip6_loop.simps [of U j s] address_ends_def after_address_def ip6_char_def
      split: prod.splits)

lemma hex_digit_of_colon [simp]: "hex_digit_of 0x3A = 16"
  by (simp add: hex_digit_of_def)

lemma ip6_char_digit:
  "hex_digit_of c < 16 \<Longrightarrow> n_hex_quads s < N_QUADS \<Longrightarrow> n_hex_digits s < 4 \<Longrightarrow>
     ip6_char c s = Some (Value (s\<lparr>hex_quad := push_bit 4 (hex_quad s) OR hex_digit_of c,
       n_colon := 0, n_hex_digits := Suc (n_hex_digits s)\<rparr>))"
  by (auto simp: ip6_char_def Let_def)

lemma ip6_char_colon_store:
  "scan_ok s \<Longrightarrow> n_colon s = 0 \<Longrightarrow> n_hex_digits s > 0 \<Longrightarrow>
     ip6_char COLON s = Some (Value (s\<lparr>n_colon := 1,
       hex_quads := (hex_quads s)[n_hex_quads s := ucast (hex_quad s)],
       n_hex_quads := Suc (n_hex_quads s), hex_quad := 0, n_hex_digits := 0\<rparr>))"
  by (auto simp: ip6_char_def Let_def push_quad_def array_set_def scan_ok_def)

lemma ip6_char_colon_first:
  "n_colon s = 0 \<Longrightarrow> n_hex_digits s = 0 \<Longrightarrow> n_hex_quads s < N_QUADS \<Longrightarrow>
     ip6_char COLON s = Some (Value (s\<lparr>n_colon := 1\<rparr>))"
  by (auto simp: ip6_char_def Let_def)

lemma ip6_char_colon_second:
  "n_colon s = 1 \<Longrightarrow> n_hex_digits s = 0 \<Longrightarrow> n_hex_quads s < N_QUADS \<Longrightarrow>
     double_colon_index s \<ge> N_QUADS \<Longrightarrow>
     ip6_char COLON s = Some (Value (s\<lparr>n_colon := 2, double_colon_index := n_hex_quads s\<rparr>))"
  by (auto simp: ip6_char_def Let_def)

lemma ip6_run_digits:
  assumes "\<forall>c \<in> set ds. hex_digit_of c < 16" and "n_hex_quads s < N_QUADS"
    and "n_hex_digits s + length ds \<le> 4" and "ds \<noteq> []"
  shows "ip6_run ds s = Some (s\<lparr>
      hex_quad := foldl (\<lambda>v c. push_bit 4 v OR hex_digit_of c) (hex_quad s) ds,
      n_colon := 0, n_hex_digits := n_hex_digits s + length ds\<rparr>)"
  using assms
proof (induction ds arbitrary: s)
  case (Cons c cs)
  show ?case
  proof (cases "cs = []")
    case True
    with Cons.prems show ?thesis by (simp add: ip6_char_digit)
  next
    case False
    let ?t = "s\<lparr>hex_quad := push_bit 4 (hex_quad s) OR hex_digit_of c,
       n_colon := 0, n_hex_digits := Suc (n_hex_digits s)\<rparr>"
    from Cons.IH [of ?t] Cons.prems False show ?thesis by (simp add: ip6_char_digit)
  qed
qed simp

text \<open>A state between groups: \<open>vs\<close> are the quads stored, no digit is pending.\<close>

definition between :: "ip6_scan \<Rightarrow> u16 list \<Rightarrow> bool" where
  "between s vs \<longleftrightarrow> scan_ok s \<and> n_hex_digits s = 0 \<and> hex_quad s = 0 \<and>
     n_hex_quads s = length vs \<and> take (n_hex_quads s) (hex_quads s) = vs"

lemma ip6_run_group:
  assumes "between s vs" and "is_group g" and "length vs < N_QUADS"
  shows "ip6_run g s = Some (s\<lparr>hex_quad := group_val g, n_colon := 0, n_hex_digits := length g\<rparr>)"
  using assms ip6_run_digits [of g s] by (auto simp: between_def is_group_def group_val_def)

lemma scan_ok_group:
  "between s vs \<Longrightarrow> is_group g \<Longrightarrow> length vs < N_QUADS \<Longrightarrow>
     scan_ok (s\<lparr>hex_quad := group_val g, n_colon := 0, n_hex_digits := length g\<rparr>)"
  by (auto simp: between_def scan_ok_def is_group_def)

lemma ip6_run_group_colon:
  assumes "between s vs" and "is_group g" and "length vs < N_QUADS"
  shows "\<exists>t. ip6_run (g @ [COLON]) s = Some t \<and> between t (vs @ [group_quad g]) \<and>
           n_colon t = 1 \<and> double_colon_index t = double_colon_index s"
proof -
  let ?m = "s\<lparr>hex_quad := group_val g, n_colon := 0, n_hex_digits := length g\<rparr>"
  let ?t = "?m\<lparr>n_colon := 1, hex_quads := (hex_quads ?m)[n_hex_quads ?m := ucast (hex_quad ?m)],
       n_hex_quads := Suc (n_hex_quads ?m), hex_quad := 0, n_hex_digits := 0\<rparr>"
  have ok: "scan_ok ?m" using assms by (rule scan_ok_group)
  have c: "ip6_char COLON ?m = Some (Value ?t)"
    using ip6_char_colon_store [OF ok] assms(2) by (simp add: is_group_def)
  have "ip6_run (g @ [COLON]) s = Some ?t"
    using ip6_run_group [OF assms] c by (simp add: ip6_run_append)
  moreover have "between ?t (vs @ [group_quad g])"
    using assms by (auto simp: between_def scan_ok_def take_Suc_update)
  ultimately show ?thesis by force
qed

lemma ip6_run_groups:
  assumes "between s vs" and "\<forall>g \<in> set gs. is_group g" and "gs \<noteq> []"
    and "length vs + length gs \<le> N_QUADS"
  shows "\<exists>t. ip6_run (groups_text gs) s = Some t \<and> scan_ok t \<and>
           scanned t = vs @ map group_quad gs \<and> n_colon t = 0 \<and> n_hex_digits t > 0 \<and>
           double_colon_index t = double_colon_index s"
  using assms
proof (induction gs arbitrary: s vs rule: groups_text.induct)
  case (2 g)
  then have g: "is_group g" "length vs < N_QUADS" by auto
  let ?t = "s\<lparr>hex_quad := group_val g, n_colon := 0, n_hex_digits := length g\<rparr>"
  have "scanned ?t = vs @ [group_quad g]" "n_hex_digits ?t > 0"
    using "2.prems"(1) g by (auto simp: scanned_def between_def is_group_def)
  with ip6_run_group [OF "2.prems"(1) g] scan_ok_group [OF "2.prems"(1) g] show ?case by auto
next
  case (3 g g' gs)
  then have g: "is_group g" "length vs < N_QUADS" by auto
  from ip6_run_group_colon [OF "3.prems"(1) g] obtain u where
    u: "ip6_run (g @ [COLON]) s = Some u" "between u (vs @ [group_quad g])"
      "double_colon_index u = double_colon_index s" by blast
  from "3.IH" [OF u(2)] "3.prems" obtain t where
    t: "ip6_run (groups_text (g' # gs)) u = Some t" "scan_ok t"
      "scanned t = (vs @ [group_quad g]) @ map group_quad (g' # gs)" "n_colon t = 0"
      "n_hex_digits t > 0" "double_colon_index t = double_colon_index u" by auto
  have "ip6_run (groups_text (g # g' # gs)) s = Some t"
    using u(1) t(1) ip6_run_append [of "g @ [COLON]" "groups_text (g' # gs)" s] by simp
  with t u(3) show ?case by auto
qed simp

lemma ip6_pending_colon:
  assumes "scan_ok t" and "n_colon t = 0" and "n_hex_digits t > 0"
  shows "\<exists>u. ip6_char COLON t = Some (Value u) \<and> between u (scanned t) \<and> n_colon u = 1 \<and>
           double_colon_index u = double_colon_index t"
proof -
  let ?u = "t\<lparr>n_colon := 1, hex_quads := (hex_quads t)[n_hex_quads t := ucast (hex_quad t)],
       n_hex_quads := Suc (n_hex_quads t), hex_quad := 0, n_hex_digits := 0\<rparr>"
  have "between ?u (scanned t)"
    using assms by (auto simp: between_def scanned_def scan_ok_def take_Suc_update)
  with ip6_char_colon_store [OF assms] show ?thesis by auto
qed

lemma between_start: "length junk = N_QUADS \<Longrightarrow> between (ip6_start junk) []"
  by (simp add: between_def) (simp add: ip6_start_def)

text \<open>The text up to and including the double colon.\<close>

lemma ip6_run_double_colon:
  assumes "length junk = N_QUADS" and "\<forall>g \<in> set gs. is_group g" and "length gs < N_QUADS"
  shows "\<exists>v. ip6_run (groups_text gs @ [COLON, COLON]) (ip6_start junk) = Some v \<and>
           between v (map group_quad gs) \<and> double_colon_index v = length gs"
proof -
  have "\<exists>u. ip6_run (groups_text gs @ [COLON]) (ip6_start junk) = Some u \<and>
           between u (map group_quad gs) \<and> n_colon u = 1 \<and> double_colon_index u = N_QUADS"
  proof (cases "gs = []")
    case True
    let ?u = "(ip6_start junk)\<lparr>n_colon := 1\<rparr>"
    have "ip6_char COLON (ip6_start junk) = Some (Value ?u)"
      by (rule ip6_char_colon_first) (simp_all add: ip6_start_def)
    moreover have "between ?u []"
      using between_start [OF assms(1)] by (simp add: between_def scan_ok_def ip6_start_def)
    ultimately show ?thesis using True by (auto simp: ip6_start_def)
  next
    case False
    from ip6_run_groups [OF between_start [OF assms(1)] assms(2) False] assms(3) obtain t where
      t: "ip6_run (groups_text gs) (ip6_start junk) = Some t" "scan_ok t"
        "scanned t = map group_quad gs" "n_colon t = 0" "n_hex_digits t > 0"
        "double_colon_index t = N_QUADS" by (auto simp: ip6_start_def)
    from ip6_pending_colon [OF t(2,4,5)] t show ?thesis by (auto simp: ip6_run_append)
  qed
  then obtain u where u: "ip6_run (groups_text gs @ [COLON]) (ip6_start junk) = Some u"
    "between u (map group_quad gs)" "n_colon u = 1" "double_colon_index u = N_QUADS" by blast
  let ?v = "u\<lparr>n_colon := 2, double_colon_index := n_hex_quads u\<rparr>"
  have "ip6_char COLON u = Some (Value ?v)"
    using u assms(3) by (intro ip6_char_colon_second) (auto simp: between_def)
  moreover have "between ?v (map group_quad gs)" using u(2) by (auto simp: between_def scan_ok_def)
  ultimately show ?thesis
    using u ip6_run_append [of "groups_text gs @ [COLON]" "[COLON]"] by (auto simp: between_def)
qed

text \<open>A group of four digits for a value, as a printer would write it.\<close>

definition hex_char :: "u16 \<Rightarrow> u64" where
  "hex_char d = (if d < 10 then 0x30 + ucast d else 0x61 + (ucast d - 10))"

definition print_quad :: "u16 \<Rightarrow> u64 list" where
  "print_quad w =
     [hex_char (drop_bit 12 w), hex_char (take_bit 4 (drop_bit 8 w)),
      hex_char (take_bit 4 (drop_bit 4 w)), hex_char (take_bit 4 w)]"

lemma hex_char_val:
  assumes "d < 16"
  shows "hex_digit_of (hex_char d) = ucast d"
proof -
  have d: "d = word_of_nat (unat d)" by simp
  have "unat d < 16" using assms by (simp add: word_less_nat_alt)
  then have "unat d \<in> {0, 1, 2, 3, 4, 5, 6, 7, 8, 9, 10, 11, 12, 13, 14, 15}"
    by (simp only: insert_iff empty_iff) presburger
  then show ?thesis
    by (subst (1 2) d) (elim insertE; simp add: hex_char_def hex_digit_of_def)
qed

lemma print_quad_group: "is_group (print_quad w)" and print_quad_val: "group_quad (print_quad w) = w"
proof -
  have b: "drop_bit 12 w < 16" "take_bit 4 (drop_bit 8 w) < 16"
    "take_bit 4 (drop_bit 4 w) < 16" "take_bit 4 w < 16"
    using unsigned_less [of w, where 'a = nat]
    by (auto simp: word_less_nat_alt unsigned_take_bit_eq take_bit_eq_mod drop_bit_eq_div unat_div unat_mod)
  show "is_group (print_quad w)"
    using b by (auto simp: is_group_def print_quad_def hex_char_val word_less_nat_alt unat_up_ucast)
  show "group_quad (print_quad w) = w"
  proof (rule bit_word_eqI)
    fix n assume "n < LENGTH(16)"
    then consider "n < 4" | "4 \<le> n" "n < 8" | "8 \<le> n" "n < 12" | "12 \<le> n" "n < 16" by force
    then show "bit (group_quad (print_quad w)) n = bit w n"
      unfolding group_val_def print_quad_def
      using b by cases (auto simp: hex_char_val bit_simps)
  qed
qed

section \<open>URIs\<close>

text \<open>The part of \<open>session_endpoint_cfg_t\<close> the parser writes; the address union is kept as
  its two views. The formats \<open>%s://%U/%d\<close> belong to the library: \<open>uri4\<close> and \<open>uri6\<close> run one
  with the given address parser and return what that parser wrote, the port if the whole
  format matched, and the input left.\<close>

record session_endpoint =
  sep_ip4 :: "u8 list"
  sep_ip6 :: "u16 list"
  sep_port :: u16
  sep_is_ip4 :: u8

record 'i uri_ops =
  uri4 :: "('i \<Rightarrow> u8 list option \<times> 'i) \<Rightarrow> 'i \<Rightarrow> u8 list option \<times> u32 option \<times> 'i"
  uri6 :: "('i \<Rightarrow> u16 list outcome \<times> 'i) \<Rightarrow> 'i \<Rightarrow> u16 list option \<times> u32 option \<times> 'i"

definition put_ip4 :: "u8 list option \<Rightarrow> session_endpoint \<Rightarrow> session_endpoint" where
  "put_ip4 a sep = (case a of None \<Rightarrow> sep | Some ip \<Rightarrow> sep\<lparr>sep_ip4 := ip\<rparr>)"

definition put_ip6 :: "u16 list option \<Rightarrow> session_endpoint \<Rightarrow> session_endpoint" where
  "put_ip6 a sep = (case a of None \<Rightarrow> sep | Some ip \<Rightarrow> sep\<lparr>sep_ip6 := ip\<rparr>)"

definition unformat_uri ::
    "'i unformat_ops \<Rightarrow> 'i uri_ops \<Rightarrow> u16 list \<Rightarrow> 'i \<Rightarrow> session_endpoint \<Rightarrow> bool \<times> session_endpoint \<times> 'i" where
  "unformat_uri U E junk input sep =
     (case uri4 E (unformat_ip4_address U) input of
        (a, Some port, input') \<Rightarrow>
          (True, (put_ip4 a sep)\<lparr>sep_port := bswap16 (ucast port), sep_is_ip4 := 1\<rparr>, input')
      | (a, None, input') \<Rightarrow>
          (case uri6 E (unformat_ip6_address U junk) input' of
             (b, Some port, input'') \<Rightarrow>
               (True, (put_ip6 b (put_ip4 a sep))\<lparr>sep_port := bswap16 (ucast port), sep_is_ip4 := 0\<rparr>,
                input'')
           | (b, None, input'') \<Rightarrow> (False, put_ip6 b (put_ip4 a sep), input'')))"

lemma put_ip_port [simp]:
  "sep_port (put_ip4 a sep) = sep_port sep" "sep_port (put_ip6 b sep) = sep_port sep"
  "sep_is_ip4 (put_ip4 a sep) = sep_is_ip4 sep" "sep_is_ip4 (put_ip6 b sep) = sep_is_ip4 sep"
  by (auto simp: put_ip4_def put_ip6_def split: option.splits)

section \<open>Properties\<close>

text \<open>Helpers shared by the properties below.\<close>

lemma unformat_ip6_ends:
  assumes "delivers U i cs j" and "ip6_run cs (ip6_start junk) = Some s" and "address_ends U j"
  shows "unformat_ip6_address U junk i = (ip6_finish s, after_address U j)"
  using ip6_loop_run [OF assms(1,2)] ip6_loop_ends [OF assms(3)]
  by (simp add: unformat_ip6_address_def)

lemma between_scanned: "between s vs \<Longrightarrow> scanned s = vs \<and> scan_ok s"
  by (auto simp: between_def scanned_def)

lemma ip6_compressed_run:
  assumes "length junk = N_QUADS" and "\<forall>g \<in> set gs \<union> set hs. is_group g"
    and "length gs < N_QUADS" and "length gs + length hs \<le> N_QUADS"
  shows "\<exists>s. ip6_run (groups_text gs @ [COLON, COLON] @ groups_text hs) (ip6_start junk) = Some s \<and>
           scan_ok s \<and> scanned s = map group_quad (gs @ hs) \<and> double_colon_index s = length gs"
proof -
  from ip6_run_double_colon [OF assms(1) _ assms(3)] assms(2) obtain v where
    v: "ip6_run (groups_text gs @ [COLON, COLON]) (ip6_start junk) = Some v"
      "between v (map group_quad gs)" "double_colon_index v = length gs" by auto
  have app: "ip6_run (groups_text gs @ [COLON, COLON] @ groups_text hs) (ip6_start junk)
      = ip6_run (groups_text hs) v"
    using v(1) ip6_run_append [of "groups_text gs @ [COLON, COLON]" "groups_text hs"] by simp
  show ?thesis
  proof (cases "hs = []")
    case True
    with v app between_scanned [OF v(2)] show ?thesis by auto
  next
    case False
    from ip6_run_groups [OF v(2) _ False] assms(2,4) v(3) app show ?thesis by auto
  qed
qed

text \<open>A concrete input for the witnesses: a buffer and a read position (the dotted format reads
  the next four cells as the four numbers).\<close>

definition buffer_ops :: "(u64 list \<times> nat) unformat_ops" where
  "buffer_ops =
     \<lparr>unformat_get_input = (\<lambda>(b, k). if k < length b then (b ! k, (b, Suc k)) else (-1, (b, k))),
      unformat_put_input = (\<lambda>(b, k). (b, k - 1)),
      end_of_input = -1,
      unformat_dotted = (\<lambda>(b, k).
        case drop k b of
          n0 # n1 # n2 # n3 # _ \<Rightarrow> (Some (ucast n0, ucast n1, ucast n2, ucast n3), (b, k + 4))
        | _ \<Rightarrow> (None, (b, k)))\<rparr>"

lemma finish_ok:
  assumes "scan_ok s"
  shows "ip6_finish s \<noteq> Overrun \<and> (\<forall>qs. ip6_finish s = Value qs \<longrightarrow> length qs = N_QUADS)"
proof -
  have "length (scanned s) \<le> N_QUADS" using assms by (auto simp: scanned_def scan_ok_def)
  moreover have "double_colon_index s < N_QUADS \<Longrightarrow> double_colon_index s \<le> length (scanned s)"
    using assms by (auto simp: scanned_def scan_ok_def)
  ultimately show ?thesis using ip6_finish_eq [OF assms] by (auto simp: Let_def split: if_splits)
qed

text \<open>C9: \<open>unformat_ip6_address\<close> never writes outside its array of eight quads, whatever the
  input delivers, and an address it accepts has exactly eight quads.\<close>

theorem ip6_no_overrun:
  assumes "length junk = 8"
  shows "fst (unformat_ip6_address U junk i) \<noteq> Overrun \<and>
         (\<forall>qs. fst (unformat_ip6_address U junk i) = Value qs \<longrightarrow> length qs = 8)"
proof -
  obtain r i' where r: "ip6_loop U i (ip6_start junk) = (r, i')" by fastforce
  have "r \<noteq> Overrun \<and> (\<forall>s'. r = Value s' \<longrightarrow> scan_ok s')"
    using ip6_loop_ok [OF scan_ok_start r] assms by simp
  with r finish_ok show ?thesis by (cases r) (auto simp: unformat_ip6_address_def)
qed

theorem ip6_no_overrun_witness:
  "fst (unformat_ip6_address buffer_ops (replicate 8 7) ([0x3A, 0x3A, 0x31], 0)) \<noteq> Overrun"
  using ip6_no_overrun [of "replicate 8 7" buffer_ops "([0x3A, 0x3A, 0x31], 0)"] by simp

text \<open>C10: what the stack held in the uninitialised array \<open>hex_quads\<close> never reaches the result:
  two runs from different contents accept or refuse alike, give the same address and leave
  the same input.\<close>

theorem ip6_junk_irrelevant:
  assumes "length junk = 8" and "length junk' = 8"
  shows "unformat_ip6_address U junk i = unformat_ip6_address U junk' i"
proof -
  have same: "same_scan (ip6_start junk) (ip6_start junk')"
    using assms by (intro same_scanI scan_ok_start) (simp_all add: ip6_start_def)
  have fin: "ip6_finish s = ip6_finish t" if st: "same_scan s t" for s t
  proof -
    have "scanned t = scanned s" using same_scan_fields [OF st] by (simp add: scanned_def)
    then show ?thesis using st same_scan_fields [OF st] ip6_finish_eq [of s] ip6_finish_eq [of t]
      by (simp add: same_scan_def)
  qed
  from ip6_loop_same [OF same, of U i] show ?thesis
    by (cases "fst (ip6_loop U i (ip6_start junk))"; cases "fst (ip6_loop U i (ip6_start junk'))")
      (auto simp: unformat_ip6_address_def split_beta fin)
qed

theorem ip6_junk_irrelevant_witness:
  "unformat_ip6_address buffer_ops (replicate 8 0) ([0x3A, 0x3A, 0x31], 0)
     = unformat_ip6_address buffer_ops [1, 2, 3, 4, 5, 6, 7, 8] ([0x3A, 0x3A, 0x31], 0)"
  by (rule ip6_junk_irrelevant) simp_all

text \<open>C8: the text of groups \<open>gs\<close>, a double colon and groups \<open>hs\<close> is accepted when there are
  at most eight groups (fewer than eight of them before the double colon), and gives the
  groups in network byte order with zeros in place of the double colon; the input is left
  where the address ended.\<close>

theorem ip6_compressed:
  assumes "length junk = 8" and "\<forall>g \<in> set gs \<union> set hs. is_group g"
    and "length gs < 8" and "length gs + length hs \<le> 8"
    and "delivers U i (groups_text gs @ [0x3A, 0x3A] @ groups_text hs) j" and "address_ends U j"
  shows "unformat_ip6_address U junk i =
    (Value (map bswap16 (map group_quad gs @ replicate (8 - (length gs + length hs)) 0
       @ map group_quad hs)), after_address U j)"
proof -
  from ip6_compressed_run [OF assms(1-4)] obtain s where
    s: "ip6_run (groups_text gs @ [0x3A, 0x3A] @ groups_text hs) (ip6_start junk) = Some s"
      "scan_ok s" "scanned s = map group_quad (gs @ hs)" "double_colon_index s = length gs"
    by blast
  from unformat_ip6_ends [OF assms(5) s(1) assms(6)] ip6_finish_eq [OF s(2)] s(3,4) assms(3)
  show ?thesis by (simp add: Let_def)
qed

theorem ip6_compressed_witness:
  "fst (unformat_ip6_address buffer_ops (replicate 8 7) ([0x66, 0x45, 0x3A, 0x3A, 0x31, 0x2F], 0))
     = Value [0xFE00, 0, 0, 0, 0, 0, 0, 0x0100]"
proof -
  let ?i = "([0x66, 0x45, 0x3A, 0x3A, 0x31, 0x2F], 0) :: u64 list \<times> nat"
  let ?j = "([0x66, 0x45, 0x3A, 0x3A, 0x31, 0x2F], 5) :: u64 list \<times> nat"
  let ?gs = "[[0x66, 0x45]] :: u64 list list" and ?hs = "[[0x31]] :: u64 list list"
  have g: "\<forall>g \<in> set ?gs \<union> set ?hs. is_group g" by (simp add: is_group_def hex_digit_of_def)
  have d: "delivers buffer_ops ?i (groups_text ?gs @ [0x3A, 0x3A] @ groups_text ?hs) ?j" by code_simp
  have e: "address_ends buffer_ops ?j" by code_simp
  have v: "map bswap16 (map group_quad ?gs @ replicate (8 - (length ?gs + length ?hs)) 0
      @ map group_quad ?hs) = [0xFE00, 0, 0, 0, 0, 0, 0, 0x0100]" by code_simp
  have "unformat_ip6_address buffer_ops (replicate 8 7) ?i
      = (Value [0xFE00, 0, 0, 0, 0, 0, 0, 0x0100], after_address buffer_ops ?j)"
    unfolding v [symmetric] by (rule ip6_compressed [OF _ g _ _ d e]) simp_all
  then show ?thesis by (simp only: fst_conv)
qed

text \<open>C7: printing eight quads in hexadecimal with colons between them and parsing the text
  gives the eight quads back, in network byte order.\<close>

theorem ip6_roundtrip:
  assumes "length junk = 8" and "length ws = 8"
    and "delivers U i (groups_text (map print_quad ws)) j" and "address_ends U j"
  shows "unformat_ip6_address U junk i = (Value (map bswap16 ws), after_address U j)"
proof -
  have "map print_quad ws \<noteq> []" using assms(2) by auto
  from ip6_run_groups [OF between_start [OF assms(1)] _ this] assms(2) print_quad_group
  obtain s where s: "ip6_run (groups_text (map print_quad ws)) (ip6_start junk) = Some s"
    "scan_ok s" "scanned s = map group_quad (map print_quad ws)"
    "double_colon_index s = double_colon_index (ip6_start junk)" by auto
  have vs: "scanned s = ws" using s(3) by (simp add: print_quad_val map_idI)
  have "double_colon_index s = 8" using s(4) by (simp add: ip6_start_def)
  with unformat_ip6_ends [OF assms(3) s(1) assms(4)] ip6_finish_eq [OF s(2)] vs assms(2)
  show ?thesis by (simp add: Let_def)
qed

theorem ip6_roundtrip_witness:
  "let t = groups_text (map print_quad [0x2001, 0xDB8, 0, 1, 2, 3, 4, 0xABCD])
   in fst (unformat_ip6_address buffer_ops (replicate 8 7) (t, 0))
        = Value (map bswap16 [0x2001, 0xDB8, 0, 1, 2, 3, 4, 0xABCD])"
proof -
  let ?ws = "[0x2001, 0xDB8, 0, 1, 2, 3, 4, 0xABCD] :: u16 list"
  let ?t = "groups_text (map print_quad ?ws)"
  have d: "delivers buffer_ops (?t, 0) ?t (?t, length ?t)" by code_simp
  have e: "address_ends buffer_ops (?t, length ?t)" by (simp add: address_ends_def buffer_ops_def)
  have "unformat_ip6_address buffer_ops (replicate 8 7) (?t, 0)
      = (Value (map bswap16 ?ws), after_address buffer_ops (?t, length ?t))"
    by (rule ip6_roundtrip [OF _ _ d e]) simp_all
  then show ?thesis unfolding Let_def by (simp only: fst_conv)
qed

text \<open>Without a double colon an address of fewer than eight groups is refused.\<close>

theorem ip6_too_few:
  assumes "length junk = 8" and "\<forall>g \<in> set gs. is_group g" and "gs \<noteq> []" and "length gs < 8"
    and "delivers U i (groups_text gs) j" and "address_ends U j"
  shows "unformat_ip6_address U junk i = (Refused, after_address U j)"
proof -
  from ip6_run_groups [OF between_start [OF assms(1)] assms(2,3)] assms(4) obtain s where
    s: "ip6_run (groups_text gs) (ip6_start junk) = Some s" "scan_ok s"
      "scanned s = map group_quad gs" "double_colon_index s = double_colon_index (ip6_start junk)"
    by auto
  have "double_colon_index s = 8" using s(4) by (simp add: ip6_start_def)
  with unformat_ip6_ends [OF assms(5) s(1) assms(6)] ip6_finish_eq [OF s(2)] s(3) assms(4)
  show ?thesis by (simp add: Let_def)
qed

theorem ip6_too_few_witness:
  "fst (unformat_ip6_address buffer_ops (replicate 8 7) ([0x66, 0x3A, 0x31], 0)) = Refused"
proof -
  let ?i = "([0x66, 0x3A, 0x31], 0) :: u64 list \<times> nat"
  let ?j = "([0x66, 0x3A, 0x31], 3) :: u64 list \<times> nat"
  have d: "delivers buffer_ops ?i (groups_text [[0x66], [0x31]]) ?j" by code_simp
  have e: "address_ends buffer_ops ?j" by code_simp
  have "unformat_ip6_address buffer_ops (replicate 8 7) ?i = (Refused, after_address buffer_ops ?j)"
    by (rule ip6_too_few [OF _ _ _ _ d e]) (simp_all add: is_group_def hex_digit_of_def)
  then show ?thesis by (simp only: fst_conv)
qed

text \<open>A single colon in front of an address of eight groups is not refused: it is read as if
  it were not there, although no IPv6 text starts with one colon.\<close>

theorem ip6_leading_colon_accepted:
  assumes "length junk = 8" and "\<forall>g \<in> set gs. is_group g" and "length gs = 8"
    and "delivers U i (0x3A # groups_text gs) j" and "address_ends U j"
  shows "unformat_ip6_address U junk i = (Value (map bswap16 (map group_quad gs)), after_address U j)"
proof -
  let ?u = "(ip6_start junk)\<lparr>n_colon := 1\<rparr>"
  have c: "ip6_char COLON (ip6_start junk) = Some (Value ?u)"
    by (rule ip6_char_colon_first) (simp_all add: ip6_start_def)
  have b: "between ?u []"
    using between_start [OF assms(1)] by (simp add: between_def scan_ok_def ip6_start_def)
  have "gs \<noteq> []" using assms(3) by auto
  from ip6_run_groups [OF b assms(2) this] assms(3) obtain s where
    s: "ip6_run (groups_text gs) ?u = Some s" "scan_ok s" "scanned s = map group_quad gs"
      "double_colon_index s = double_colon_index ?u" by auto
  have d: "double_colon_index s = 8" using s(4) by (simp add: ip6_start_def)
  have "ip6_run (0x3A # groups_text gs) (ip6_start junk) = Some s" using c s(1) by simp
  from unformat_ip6_ends [OF assms(4) this assms(5)] ip6_finish_eq [OF s(2)] s(3) d assms(3)
  show ?thesis by (simp add: Let_def)
qed

theorem ip6_leading_colon_accepted_witness:
  "fst (unformat_ip6_address buffer_ops (replicate 8 7)
     (0x3A # groups_text (replicate 8 [0x31]), 0)) = Value (replicate 8 0x0100)"
proof -
  let ?t = "0x3A # groups_text (replicate 8 [0x31])"
  have d: "delivers buffer_ops (?t, 0) ?t (?t, length ?t)" by code_simp
  have e: "address_ends buffer_ops (?t, length ?t)" by code_simp
  have v: "map bswap16 (map group_quad (replicate 8 [0x31])) = replicate 8 0x0100" by code_simp
  have "unformat_ip6_address buffer_ops (replicate 8 7) (?t, 0)
      = (Value (replicate 8 0x0100), after_address buffer_ops (?t, length ?t))"
    unfolding v [symmetric]
    by (rule ip6_leading_colon_accepted [OF _ _ _ d e]) (simp_all add: is_group_def hex_digit_of_def)
  then show ?thesis by (simp only: fst_conv)
qed


definition demo_uri_ops :: "u32 \<Rightarrow> (u64 list \<times> nat) uri_ops" where
  "demo_uri_ops port =
     \<lparr>uri4 = (\<lambda>f i. case f i of (r, i') \<Rightarrow> (r, if r = None then None else Some port, i')),
      uri6 = (\<lambda>f i. case f i of (Value a, i') \<Rightarrow> (Some a, Some port, i') | (_, i') \<Rightarrow> (None, None, i'))\<rparr>"


text \<open>An IPv4 address is accepted exactly when the four numbers of its dotted form are
  below 256, and its bytes are those numbers in order.\<close>

theorem ip4_accepts:
  assumes "unformat_dotted U i = (Some (a0, a1, a2, a3), i')"
  shows "(fst (unformat_ip4_address U i) \<noteq> None \<longleftrightarrow> (\<forall>a \<in> {a0, a1, a2, a3}. unat a < 256)) \<and>
         (\<forall>bs. fst (unformat_ip4_address U i) = Some bs \<longrightarrow> map unat bs = map unat [a0, a1, a2, a3])"
proof -
  have small: "unat (ucast a :: u8) = unat a" if "\<not> 256 \<le> a" for a :: u32
    using that by (simp add: unsigned_ucast_eq take_bit_eq_mod word_le_nat_alt)
  show ?thesis
    using assms small by (auto simp: unformat_ip4_address_def word_le_nat_alt split: if_splits)
qed

theorem ip4_accepts_witness:
  "fst (unformat_ip4_address buffer_ops ([6, 0, 1, 300], 0)) = None"
  using ip4_accepts [of buffer_ops "([6, 0, 1, 300], 0)" 6 0 1 300]
  by (simp add: buffer_ops_def)

end
