(* ===== verification/UdpState.thy ===== *)
theory UdpState
  imports UdpUri
begin

text \<open>
  The data of \<open>src/src/udp-echo/main.c\<close>: the connection states, the sessions, the program's
  state \<open>udp_echo_main_t\<close>, the messages it exchanges with VPP, and its initial values.

  Code that is not in the repository is a parameter: the session pool (VPP's \<open>pool.h\<close>, record
  \<open>session_pool\<close>), the numeric constants and the clock (record \<open>vpp_env\<close>). VPP's hash tables
  are maps. Everything the program hands to VPP, and its warnings, is appended to \<open>out\<close>.
\<close>

section \<open>Sessions and their pool\<close>

datatype connection_state =
    STATE_START | STATE_ATTACHED | STATE_BOUND | STATE_READY | STATE_FAILED
  | STATE_DISCONNECTING | STATE_DETACHED

record ip46 =
  as_ip4 :: "u8 list"
  as_ip6 :: "u16 list"

record transport_endpoint =
  rmt_ip :: ip46
  rmt_port :: u16
  lcl_ip :: ip46
  lcl_port :: u16
  tr_is_ip4 :: u8

record app_session =
  session_index :: u32
  rx_fifo :: ptr
  tx_fifo :: ptr
  vpp_evt_q :: ptr
  is_dgram :: u8
  transport :: transport_endpoint

definition zero_ip46 :: ip46 where
  "zero_ip46 = \<lparr>as_ip4 = replicate 4 0, as_ip6 = replicate 8 0\<rparr>"

text \<open>\<open>clib_memset(session, 0, sizeof(*session))\<close>.\<close>

definition zero_session :: app_session where
  "zero_session =
     \<lparr>session_index = 0, rx_fifo = NULL, tx_fifo = NULL, vpp_evt_q = NULL, is_dgram = 0,
      transport = \<lparr>rmt_ip = zero_ip46, rmt_port = 0, lcl_ip = zero_ip46, lcl_port = 0, tr_is_ip4 = 0\<rparr>\<rparr>"

text \<open>\<open>pool_get\<close> (\<open>None\<close> is its abort when memory is exhausted), \<open>pool_put\<close>,
  \<open>pool_elt_at_index\<close> (reading and writing through the pointer) and \<open>pool_elts\<close>;
  \<open>pool_live\<close> and \<open>pool_valid\<close> are only used to state the library's laws.\<close>

record 'p session_pool =
  pool_get :: "'p \<Rightarrow> (nat \<times> 'p) option"
  pool_put :: "'p \<Rightarrow> nat \<Rightarrow> 'p"
  pool_elt :: "'p \<Rightarrow> nat \<Rightarrow> app_session"
  pool_upd :: "'p \<Rightarrow> nat \<Rightarrow> (app_session \<Rightarrow> app_session) \<Rightarrow> 'p"
  pool_elts :: "'p \<Rightarrow> nat"
  pool_live :: "'p \<Rightarrow> nat \<Rightarrow> bool"
  pool_valid :: "'p \<Rightarrow> bool"

text \<open>The documented behaviour of the pool library: the shared pool interface, with
  indices that fit the 32 bit field they are stored in, and (\<open>pool_keeps\<close>) a \<open>pool_put\<close>
  that leaves the memory of the element alone.\<close>

definition pool_laws :: "'p session_pool \<Rightarrow> bool" where
  "pool_laws P \<longleftrightarrow>
     slot_store (pool_live P) (pool_elts P) (pool_elt P) (pool_get P) (pool_put P)
       (pool_valid P) (pool_upd P) (\<lambda>_. True) \<and>
     (\<forall>p i. pool_valid P p \<longrightarrow> pool_live P p i \<longrightarrow> i < 2 ^ 32)"

definition pool_keeps :: "'p session_pool \<Rightarrow> bool" where
  "pool_keeps P \<longleftrightarrow> (\<forall>p i. pool_elt P (pool_put P p i) i = pool_elt P p i)"

section \<open>Messages\<close>

text \<open>Requests to VPP. Message numbers, option slots and flag values are defined by VPP's
  headers; the slots are named as the code names them.\<close>

datatype api_name =
  APPLICATION_ATTACH | APPLICATION_DETACH | CONNECT_URI | BIND_URI | UNBIND_URI

datatype app_option =
    APP_OPTIONS_FLAGS | APP_OPTIONS_PREALLOC_FIFO_PAIRS | APP_OPTIONS_RX_FIFO_SIZE
  | APP_OPTIONS_TX_FIFO_SIZE | APP_OPTIONS_ADD_SEGMENT_SIZE | APP_OPTIONS_SEGMENT_SIZE
  | APP_OPTIONS_EVT_QUEUE_SIZE

record api_request =
  vl_msg_id :: u16
  client_index :: u32
  msg_context :: u32
  options :: "app_option \<Rightarrow> u64"
  uri :: "u8 list"

datatype ctrl_reply =
    Accepted_reply (reply_handle: u64) (reply_context: u32) (reply_retval: int)
  | Disconnected_reply (reply_handle: u64) (reply_context: u32) (reply_retval: int)

datatype error_text = Text string | Number int

text \<open>\<open>Warning_at w p\<close> is a warning with a \<open>%s\<close> whose argument is the number \<open>p\<close>, read as the
  address of a string.\<close>

datatype out_item =
    Shmem ptr api_request
  | Ctrl_evt ptr ctrl_reply
  | Segment_attach "u8 list" u64
  | Segment_delete u32
  | Session_rate nat real
  | Transfer_report u64 real bool
  | Connections nat
  | Warning string
  | Warning_at string ptr
  | Warning_api string error_text

section \<open>The program's state\<close>

record 'p udp_echo_main =
  vl_input_queue :: ptr
  my_client_index :: u32
  listen_uri :: "u8 list"
  connect_uri :: "u8 list"
  sessions :: 'p
  session_index_by_vpp_handles :: "u64 \<rightharpoonup> u64"
  rx_buf :: "u8 list"
  fifo_size :: u32
  i_am_server :: int
  is_connected :: u8
  our_event_queue :: ptr
  vpp_event_queue :: ptr
  cut_through_session_index :: u32
  connected_session :: u32
  my_pid :: int
  state :: connection_state
  time_to_stop :: int
  time_to_print_stats :: int
  configured_segment_size :: u32
  error_string_by_error_number :: "u64 \<rightharpoonup> string"
  connect_test_data :: "u8 list"
  segments_table :: "u64 \<rightharpoonup> u64"
  have_return :: u8
  total_to_send :: u64
  bytes_to_send :: u64
  bytes_sent :: u64
  start_time :: real  \<comment> \<open>static in \<open>session_accepted_handler\<close>\<close>
  clock_reads :: nat  \<comment> \<open>how often the clock has been read\<close>
  fifo_client_session :: "ptr \<Rightarrow> u32"  \<comment> \<open>\<open>client_session_index\<close> of the shared fifos\<close>
  out :: "out_item list"

text \<open>What comes from outside. \<open>clib_time_now\<close> is the sequence of the clock's readings;
  \<open>clib_debug\<close> tells whether \<open>ASSERT\<close> is compiled in; \<open>uri_size\<close> is the size of the URI
  array in the request messages; \<open>unset_cell v\<close> is what a pointer into a hash table reads
  after the entry with value \<open>v\<close> was removed; \<open>main_addr\<close> is the address of the global
  \<open>udp_echo_main\<close>.\<close>

record vpp_env =
  msg_id :: "api_name \<Rightarrow> u16"
  flag_add_segment :: u64
  flag_global_scope :: u64
  flag_local_scope :: u64
  uri_size :: nat
  clib_debug :: bool
  clib_time_now :: "nat \<Rightarrow> real"
  unset_cell :: "u64 \<Rightarrow> u64"
  main_addr :: ptr

text \<open>The global \<open>udp_echo_main\<close> starts as zeros; \<open>p\<close> is the empty session pool.\<close>

definition udp_echo_main_zero :: "'p \<Rightarrow> 'p udp_echo_main" where
  "udp_echo_main_zero p =
     \<lparr>vl_input_queue = NULL, my_client_index = 0, listen_uri = [], connect_uri = [], sessions = p,
      session_index_by_vpp_handles = Map.empty, rx_buf = [], fifo_size = 0, i_am_server = 0,
      is_connected = 0, our_event_queue = NULL, vpp_event_queue = NULL,
      cut_through_session_index = 0, connected_session = 0, my_pid = 0, state = STATE_START,
      time_to_stop = 0, time_to_print_stats = 0, configured_segment_size = 0,
      error_string_by_error_number = Map.empty, connect_test_data = [],
      segments_table = Map.empty, have_return = 0, total_to_send = 0, bytes_to_send = 0,
      bytes_sent = 0, start_time = 0, clock_reads = 0, fifo_client_session = (\<lambda>_. 0), out = []\<rparr>"

text \<open>A concrete environment for the witnesses.\<close>

definition demo_env :: vpp_env where
  "demo_env =
     \<lparr>msg_id = (\<lambda>n. case n of APPLICATION_ATTACH \<Rightarrow> 1 | APPLICATION_DETACH \<Rightarrow> 2 | CONNECT_URI \<Rightarrow> 3
        | BIND_URI \<Rightarrow> 4 | UNBIND_URI \<Rightarrow> 5),
      flag_add_segment = 1, flag_global_scope = 2, flag_local_scope = 4, uri_size = 128,
      clib_debug = True, clib_time_now = (\<lambda>n. real n), unset_cell = (\<lambda>v. v), main_addr = 0x601000\<rparr>"

definition emit :: "out_item \<Rightarrow> 'p udp_echo_main \<Rightarrow> 'p udp_echo_main" where
  "emit x m = m\<lparr>out := out m @ [x]\<rparr>"

definition read_clock :: "vpp_env \<Rightarrow> 'p udp_echo_main \<Rightarrow> real \<times> 'p udp_echo_main" where
  "read_clock env m = (clib_time_now env (clock_reads m), m\<lparr>clock_reads := Suc (clock_reads m)\<rparr>)"

text \<open>An \<open>ASSERT\<close>: \<open>None\<close> is the abort of a debug build.\<close>

definition assert_that :: "vpp_env \<Rightarrow> bool \<Rightarrow> 'a option \<Rightarrow> 'a option" where
  "assert_that env b k = (if clib_debug env \<and> \<not> b then None else k)"

section \<open>Signals\<close>

definition stop_signal :: "'p udp_echo_main \<Rightarrow> 'p udp_echo_main" where
  "stop_signal m = m\<lparr>time_to_stop := 1\<rparr>"

definition stats_signal :: "'p udp_echo_main \<Rightarrow> 'p udp_echo_main" where
  "stats_signal m = m\<lparr>time_to_print_stats := 1\<rparr>"

datatype signal = SIGINT | SIGQUIT | SIGTERM

definition setup_signal_handlers :: "signal \<Rightarrow> ('p udp_echo_main \<Rightarrow> 'p udp_echo_main)" where
  "setup_signal_handlers sig =
     (case sig of SIGINT \<Rightarrow> stats_signal | SIGQUIT \<Rightarrow> stop_signal | SIGTERM \<Rightarrow> stop_signal)"

section \<open>Error strings\<close>

text \<open>\<open>uword\<close> keys: a C \<open>int\<close> converted to 64 bits.\<close>

definition uword_of_int :: "int \<Rightarrow> u64" where
  "uword_of_int i = word_of_int i"

text \<open>\<open>foreach_vnet_api_error\<close> is VPP's list of error numbers and texts.\<close>

definition init_error_string_table :: "(int \<times> string) list \<Rightarrow> 'p udp_echo_main \<Rightarrow> 'p udp_echo_main" where
  "init_error_string_table errs m =
     m\<lparr>error_string_by_error_number :=
         (fold (\<lambda>(v, s) t. t(uword_of_int (- v) \<mapsto> s)) errs Map.empty)(99 \<mapsto> ''Misc'')\<rparr>"

text \<open>\<open>format_api_error\<close> takes two variadic arguments, the program's state and the error. Reading an
  argument that was not passed, or the state through another address, is \<open>None\<close>.\<close>

definition format_api_error :: "vpp_env \<Rightarrow> 'p udp_echo_main \<Rightarrow> u64 list \<Rightarrow> error_text option" where
  "format_api_error env m args =
     (case args of
        utm # arg # _ \<Rightarrow>
          if utm \<noteq> main_addr env then None
          else
            (let error = sint (ucast arg :: u32)
             in Some (case error_string_by_error_number m (uword_of_int (- error)) of
                        Some s \<Rightarrow> Text s
                      | None \<Rightarrow> Number error))
      | _ \<Rightarrow> None)"

lemma emit_simps [simp]:
  "sessions (emit x m) = sessions m"
  "session_index_by_vpp_handles (emit x m) = session_index_by_vpp_handles m"
  "state (emit x m) = state m" "out (emit x m) = out m @ [x]"
  "is_connected (emit x m) = is_connected m" "connect_uri (emit x m) = connect_uri m"
  "vpp_event_queue (emit x m) = vpp_event_queue m"
  "segments_table (emit x m) = segments_table m"
  "fifo_client_session (emit x m) = fifo_client_session m"
  "cut_through_session_index (emit x m) = cut_through_session_index m"
  "connected_session (emit x m) = connected_session m"
  "start_time (emit x m) = start_time m" "our_event_queue (emit x m) = our_event_queue m"
  by (simp_all add: emit_def)

lemma read_clock_simps [simp]:
  "sessions (snd (read_clock env m)) = sessions m"
  "session_index_by_vpp_handles (snd (read_clock env m)) = session_index_by_vpp_handles m"
  "state (snd (read_clock env m)) = state m" "out (snd (read_clock env m)) = out m"
  "vpp_event_queue (snd (read_clock env m)) = vpp_event_queue m"
  "segments_table (snd (read_clock env m)) = segments_table m"
  "fifo_client_session (snd (read_clock env m)) = fifo_client_session m"
  "start_time (snd (read_clock env m)) = start_time m"
  by (simp_all add: read_clock_def)

section \<open>A concrete session pool\<close>

text \<open>A pool of at most 65536 slots, used where a hypothesis about the library is shown to be
  satisfiable: each slot with its in-use mark; \<open>pool_get\<close> takes the first free slot.\<close>

type_synonym demo_slots = "(bool \<times> app_session) list"

fun demo_free :: "demo_slots \<Rightarrow> nat" where
  "demo_free [] = 0"
| "demo_free ((b, s) # p) = (if b then Suc (demo_free p) else 0)"

definition demo_get :: "demo_slots \<Rightarrow> (nat \<times> demo_slots) option" where
  "demo_get p =
     (let i = demo_free p
      in if i < length p then Some (i, p[i := (True, snd (p ! i))])
         else if i < 65536 then Some (i, p @ [(True, zero_session)]) else None)"

definition demo_pool :: "demo_slots session_pool" where
  "demo_pool =
     \<lparr>pool_get = demo_get,
      pool_put = (\<lambda>p i. p[i := (False, snd (p ! i))]),
      pool_elt = (\<lambda>p i. snd (p ! i)),
      pool_upd = (\<lambda>p i f. p[i := (fst (p ! i), f (snd (p ! i)))]),
      pool_elts = (\<lambda>p. length (filter fst p)),
      pool_live = (\<lambda>p i. i < length p \<and> fst (p ! i)),
      pool_valid = (\<lambda>p. length p \<le> 65536)\<rparr>"

lemma demo_free_le: "demo_free p \<le> length p"
  by (induction p rule: demo_free.induct) auto

lemma demo_free_not_live: "demo_free p < length p \<Longrightarrow> \<not> fst (p ! demo_free p)"
  by (induction p rule: demo_free.induct) auto

lemma demo_get_shape:
  assumes "demo_get p = Some (i, p')"
  shows "i < length p \<and> \<not> fst (p ! i) \<and> p' = p[i := (True, snd (p ! i))] \<or>
         i = length p \<and> i < 65536 \<and> p' = p @ [(True, zero_session)]"
  using assms demo_free_le [of p] demo_free_not_live [of p]
  by (auto simp: demo_get_def Let_def split: if_splits)

lemma filter_update_same:
  "fst y = fst (xs ! i) \<Longrightarrow> length (filter fst (xs[i := y])) = length (filter fst xs)"
  using length_filter_update [of i xs fst y] by (cases "i < length xs") (auto simp: list_update_beyond)

lemma demo_upd_nth:
  "fst (p[i := (fst (p ! i), x)] ! j) = fst (p ! j)"
  "snd (p[i := (b, snd (p ! i))] ! j) = snd (p ! j)"
  by (cases "i = j"; cases "i < length p"; simp add: list_update_beyond)+

lemma filter_update_on:
  "i < length xs \<Longrightarrow> \<not> fst (xs ! i) \<Longrightarrow> length (filter fst (xs[i := (True, y)])) = Suc (length (filter fst xs))"
  "i < length xs \<Longrightarrow> fst (xs ! i) \<Longrightarrow> Suc (length (filter fst (xs[i := (False, y)]))) = length (filter fst xs)"
  using length_filter_update [of i xs fst "(True, y)"] length_filter_update [of i xs fst "(False, y)"]
  by auto

lemma demo_pool_laws: "pool_laws demo_pool"
  unfolding pool_laws_def demo_pool_def session_pool.simps
proof (intro conjI)
  show "slot_store (\<lambda>p i. i < length p \<and> fst (p ! i)) (\<lambda>p. length (filter fst p)) (\<lambda>p i. snd (p ! i))
     demo_get (\<lambda>p i. p[i := (False, snd (p ! i))]) (\<lambda>p. length p \<le> 65536)
     (\<lambda>p i f. p[i := (fst (p ! i), f (snd (p ! i)))]) (\<lambda>_. True)"
    by unfold_locales
      (auto dest!: demo_get_shape
        simp: nth_append nth_list_update demo_upd_nth filter_update_on filter_update_same)
qed auto

lemma demo_pool_keeps: "pool_keeps demo_pool"
  by (simp add: pool_keeps_def demo_pool_def demo_upd_nth)

end
