(* ===== verification/UdpMsgs.thy ===== *)
theory UdpMsgs
  imports UdpState
begin

text \<open>
  The requests udp-echo sends to VPP: attach, detach, connect, bind and unbind of
  \<open>src/src/udp-echo/main.c\<close>, and the API signature. A URI longer than the message's array is
  a write outside it, the result \<open>None\<close>.
\<close>

section \<open>The requests\<close>

text \<open>A message just allocated and cleared.\<close>

definition cleared :: "vpp_env \<Rightarrow> api_request" where
  "cleared env =
     \<lparr>vl_msg_id = 0, client_index = 0, msg_context = 0, options = (\<lambda>_. 0),
      uri = replicate (uri_size env) 0\<rparr>"

definition set_option :: "app_option \<Rightarrow> u64 \<Rightarrow> api_request \<Rightarrow> api_request" where
  "set_option k v b = b\<lparr>options := (options b)(k := v)\<rparr>"

definition or_option :: "app_option \<Rightarrow> u64 \<Rightarrow> api_request \<Rightarrow> api_request" where
  "or_option k v b = b\<lparr>options := (options b)(k := options b k OR v)\<rparr>"

definition memcpy_uri :: "vpp_env \<Rightarrow> u8 list \<Rightarrow> api_request \<Rightarrow> api_request option" where
  "memcpy_uri env u b =
     (if length u \<le> uri_size env then Some (b\<lparr>uri := u @ drop (length u) (uri b)\<rparr>) else None)"

definition application_send_attach :: "vpp_env \<Rightarrow> 'p udp_echo_main \<Rightarrow> 'p udp_echo_main" where
  "application_send_attach env utm =
     (let bmp = cleared env;
          bmp = bmp\<lparr>vl_msg_id := bswap16 (msg_id env APPLICATION_ATTACH)\<rparr>;
          bmp = bmp\<lparr>client_index := my_client_index utm\<rparr>;
          bmp = bmp\<lparr>msg_context := bswap32 0xfeedface\<rparr>;
          bmp = set_option APP_OPTIONS_FLAGS (flag_add_segment env) bmp;
          bmp = or_option APP_OPTIONS_FLAGS (flag_global_scope env) bmp;
          bmp = or_option APP_OPTIONS_FLAGS (flag_local_scope env) bmp;
          bmp = set_option APP_OPTIONS_PREALLOC_FIFO_PAIRS 2 bmp;
          bmp = set_option APP_OPTIONS_RX_FIFO_SIZE (ucast (fifo_size utm)) bmp;
          bmp = set_option APP_OPTIONS_TX_FIFO_SIZE (ucast (fifo_size utm)) bmp;
          bmp = set_option APP_OPTIONS_ADD_SEGMENT_SIZE (push_bit 20 1) bmp;
          bmp = set_option APP_OPTIONS_SEGMENT_SIZE (push_bit 10 128) bmp;
          bmp = set_option APP_OPTIONS_EVT_QUEUE_SIZE 16768 bmp
      in emit (Shmem (vl_input_queue utm) bmp) utm)"

definition application_detach :: "vpp_env \<Rightarrow> 'p udp_echo_main \<Rightarrow> 'p udp_echo_main" where
  "application_detach env utm =
     (let bmp = cleared env;
          bmp = bmp\<lparr>vl_msg_id := bswap16 (msg_id env APPLICATION_DETACH)\<rparr>;
          bmp = bmp\<lparr>client_index := my_client_index utm\<rparr>;
          bmp = bmp\<lparr>msg_context := bswap32 0xfeedface\<rparr>
      in emit (Shmem (vl_input_queue utm) bmp) utm)"

definition udp_client_send_connect :: "vpp_env \<Rightarrow> 'p udp_echo_main \<Rightarrow> 'p udp_echo_main option" where
  "udp_client_send_connect env utm =
     (let cmp = cleared env;
          cmp = cmp\<lparr>vl_msg_id := bswap16 (msg_id env CONNECT_URI)\<rparr>;
          cmp = cmp\<lparr>client_index := my_client_index utm\<rparr>;
          cmp = cmp\<lparr>msg_context := bswap32 0xfeedface\<rparr>
      in map_option (\<lambda>cmp. emit (Shmem (vl_input_queue utm) cmp) utm)
           (memcpy_uri env (connect_uri utm) cmp))"

definition server_unbind :: "vpp_env \<Rightarrow> 'p udp_echo_main \<Rightarrow> 'p udp_echo_main option" where
  "server_unbind env utm =
     (let ump = cleared env;
          ump = ump\<lparr>vl_msg_id := bswap16 (msg_id env UNBIND_URI)\<rparr>;
          ump = ump\<lparr>client_index := my_client_index utm\<rparr>
      in map_option (\<lambda>ump. emit (Shmem (vl_input_queue utm) ump) utm)
           (memcpy_uri env (listen_uri utm) ump))"

definition server_bind :: "vpp_env \<Rightarrow> 'p udp_echo_main \<Rightarrow> 'p udp_echo_main option" where
  "server_bind env utm =
     (let bmp = cleared env;
          bmp = bmp\<lparr>vl_msg_id := bswap16 (msg_id env BIND_URI)\<rparr>;
          bmp = bmp\<lparr>client_index := my_client_index utm\<rparr>;
          bmp = bmp\<lparr>msg_context := bswap32 0xfeedface\<rparr>
      in map_option (\<lambda>bmp. emit (Shmem (vl_input_queue utm) bmp) utm)
           (memcpy_uri env (listen_uri utm) bmp))"

text \<open>\<open>vl_client_add_api_signatures\<close> puts the version in slot 0, in network order.\<close>

definition vl_client_add_api_signatures :: "u32 \<Rightarrow> u32 list \<Rightarrow> u32 list" where
  "vl_client_add_api_signatures vpe_api_version api_versions =
     api_versions[0 := bswap32 vpe_api_version]"

section \<open>What is sent\<close>

lemmas request_defs = cleared_def set_option_def or_option_def memcpy_uri_def Let_def
  application_send_attach_def application_detach_def udp_client_send_connect_def
  server_unbind_def server_bind_def

lemma memcpy_uri_Some:
  "memcpy_uri env u b = Some b' \<longleftrightarrow>
     length u \<le> uri_size env \<and> b' = b\<lparr>uri := u @ drop (length u) (uri b)\<rparr>"
  by (auto simp: memcpy_uri_def)

text \<open>Sending only appends to what was sent before: the state is otherwise untouched.\<close>

lemma sends_only:
  "application_send_attach env m = m\<lparr>out := out (application_send_attach env m)\<rparr>"
  "application_detach env m = m\<lparr>out := out (application_detach env m)\<rparr>"
  by (simp_all add: application_send_attach_def application_detach_def Let_def emit_def)

text \<open>The attach request. Both fifo sizes are the configured one, the flags are the union
  of the three scopes, every other option is the constant the program asks for, and the
  request carries the client's index and the message number in network order.\<close>

theorem attach_request:
  "\<exists>b. application_send_attach env m = emit (Shmem (vl_input_queue m) b) m \<and>
       options b APP_OPTIONS_RX_FIFO_SIZE = ucast (fifo_size m) \<and>
       options b APP_OPTIONS_TX_FIFO_SIZE = ucast (fifo_size m) \<and>
       options b APP_OPTIONS_FLAGS
         = flag_add_segment env OR flag_global_scope env OR flag_local_scope env \<and>
       options b APP_OPTIONS_PREALLOC_FIFO_PAIRS = 2 \<and>
       options b APP_OPTIONS_ADD_SEGMENT_SIZE = 1048576 \<and>
       options b APP_OPTIONS_SEGMENT_SIZE = 131072 \<and>
       client_index b = my_client_index m \<and>
       bswap16 (vl_msg_id b) = msg_id env APPLICATION_ATTACH"
  unfolding application_send_attach_def Let_def
  by (intro exI conjI, rule refl)
    (simp_all add: set_option_def or_option_def cleared_def push_bit_eq_mult or.assoc)

text \<open>A URI longer than the array would be written outside it; that is the only way the
  requests fail.\<close>

lemma uri_requests_overrun:
  "server_bind env m = None \<longleftrightarrow> uri_size env < length (listen_uri m)"
  "server_unbind env m = None \<longleftrightarrow> uri_size env < length (listen_uri m)"
  "udp_client_send_connect env m = None \<longleftrightarrow> uri_size env < length (connect_uri m)"
  by (auto simp: request_defs)

text \<open>Bind and unbind carry the same URI, the whole listen URI padded with zeros to the
  array of the message, under their own message numbers, so VPP unbinds what was bound.\<close>

theorem uri_requests:
  assumes "length (listen_uri m) \<le> uri_size env"
  shows "\<exists>b u. server_bind env m = Some (emit (Shmem (vl_input_queue m) b) m) \<and>
            server_unbind env m = Some (emit (Shmem (vl_input_queue m) u) m) \<and>
            uri b = listen_uri m @ replicate (uri_size env - length (listen_uri m)) 0 \<and>
            uri u = uri b \<and> bswap16 (vl_msg_id b) = msg_id env BIND_URI \<and>
            bswap16 (vl_msg_id u) = msg_id env UNBIND_URI"
proof -
  define b where "b = (cleared env)\<lparr>vl_msg_id := bswap16 (msg_id env BIND_URI),
    client_index := my_client_index m, msg_context := bswap32 0xfeedface,
    uri := listen_uri m @ drop (length (listen_uri m)) (uri (cleared env))\<rparr>"
  define u where "u = (cleared env)\<lparr>vl_msg_id := bswap16 (msg_id env UNBIND_URI),
    client_index := my_client_index m,
    uri := listen_uri m @ drop (length (listen_uri m)) (uri (cleared env))\<rparr>"
  have "server_bind env m = Some (emit (Shmem (vl_input_queue m) b) m)"
    and "server_unbind env m = Some (emit (Shmem (vl_input_queue m) u) m)"
    using assms by (simp_all add: server_bind_def server_unbind_def memcpy_uri_def Let_def b_def u_def)
  then show ?thesis by (intro exI [of _ b] exI [of _ u]) (simp add: b_def u_def cleared_def)
qed

theorem uri_requests_witness:
  "\<exists>b u. server_bind demo_env (udp_echo_main_zero ()\<lparr>listen_uri := [0x75, 0x64, 0x70, 0]\<rparr>)
      = Some (emit (Shmem NULL b) (udp_echo_main_zero ()\<lparr>listen_uri := [0x75, 0x64, 0x70, 0]\<rparr>)) \<and>
     uri b = [0x75, 0x64, 0x70, 0] @ replicate 124 0 \<and> bswap16 (vl_msg_id b) = 4"
  using uri_requests [of "udp_echo_main_zero ()\<lparr>listen_uri := [0x75, 0x64, 0x70, 0]\<rparr>" demo_env]
  by (auto simp: demo_env_def udp_echo_main_zero_def)

end
