(* ===== verification/UdpHandlers.thy ===== *)
theory UdpHandlers
  imports UdpMsgs
begin

text \<open>
  The message handlers of \<open>src/src/udp-echo/main.c\<close>: the replies of VPP's binary API, handled
  by the API receive thread, and the session events of the application's message queue
  (\<open>handle_mq_event\<close>). Results of library calls a handler makes (attaching a shared memory
  segment) are arguments of the handler. \<open>None\<close> is the abort of a failed \<open>ASSERT\<close>.
\<close>

section \<open>Replies of the binary API\<close>

record attach_reply =
  ar_retval :: int
  ar_segment_name :: "u8 list"
  ar_segment_name_length :: u8
  ar_segment_size :: u64
  ar_event_queue :: u64

definition vl_api_application_attach_reply_t_handler ::
    "vpp_env \<Rightarrow> attach_reply \<Rightarrow> int \<Rightarrow> 'p udp_echo_main \<Rightarrow> 'p udp_echo_main option" where
  "vl_api_application_attach_reply_t_handler env mp rv utm =
     (if ar_retval mp \<noteq> 0 then
        Some ((emit (Warning ''attach failed'') utm)\<lparr>state := STATE_FAILED\<rparr>)
      else if ar_segment_name_length mp = 0 then
        Some (emit (Warning ''segment_name_length zero'') utm)
      else
        assert_that env (ar_event_queue mp \<noteq> 0)
          (let utm = emit (Segment_attach (ar_segment_name mp) (ar_segment_size mp)) utm
           in if rv \<noteq> 0 then Some (emit (Warning ''svm_fifo_segment_attach failed'') utm)
              else Some (utm\<lparr>our_event_queue := ar_event_queue mp, state := STATE_ATTACHED\<rparr>)))"

definition vl_api_application_detach_reply_t_handler :: "int \<Rightarrow> 'p udp_echo_main \<Rightarrow> 'p udp_echo_main" where
  "vl_api_application_detach_reply_t_handler retval utm =
     (let utm = (if retval \<noteq> 0 then emit (Warning ''detach returned with err'') utm else utm)
      in utm\<lparr>state := STATE_DETACHED\<rparr>)"

record map_segment_msg =
  ms_segment_name :: "u8 list"
  ms_segment_size :: u64
  ms_segment_handle :: u64

definition vl_api_map_another_segment_t_handler ::
    "map_segment_msg \<Rightarrow> int \<Rightarrow> u32 \<Rightarrow> 'p udp_echo_main \<Rightarrow> 'p udp_echo_main" where
  "vl_api_map_another_segment_t_handler mp rv new_segment_index utm =
     (let utm = emit (Segment_attach (ms_segment_name mp) (ms_segment_size mp)) utm
      in if rv \<noteq> 0 then emit (Warning ''svm_fifo_segment_attach failed'') utm
         else
           (let utm = emit (Warning ''Mapped new segment'') utm
            in utm\<lparr>segments_table := (segments_table utm)
                 (bswap64 (ms_segment_handle mp) \<mapsto> ucast new_segment_index)\<rparr>))"

definition vl_api_unmap_segment_t_handler :: "vpp_env \<Rightarrow> u64 \<Rightarrow> 'p udp_echo_main \<Rightarrow> 'p udp_echo_main" where
  "vl_api_unmap_segment_t_handler env net_handle utm =
     (let segment_handle = bswap64 net_handle
      in case segments_table utm segment_handle of
           None \<Rightarrow> emit (Warning_at ''segment not mapped'' segment_handle) utm
         | Some seg_index \<Rightarrow>
             (let utm = utm\<lparr>segments_table := (segments_table utm)(segment_handle := None)\<rparr>;
                  utm = emit (Segment_delete (ucast (unset_cell env seg_index))) utm
              in emit (Warning_at ''Unmapped segment'' segment_handle) utm))"

definition vl_api_unbind_uri_reply_t_handler :: "int \<Rightarrow> 'p udp_echo_main \<Rightarrow> 'p udp_echo_main" where
  "vl_api_unbind_uri_reply_t_handler retval utm =
     (let utm = (if retval \<noteq> 0 then emit (Warning ''returned'') utm else utm)
      in utm\<lparr>state := STATE_START\<rparr>)"

definition vl_api_app_cut_through_registration_add_t_handler :: "'p udp_echo_main \<Rightarrow> 'p udp_echo_main" where
  "vl_api_app_cut_through_registration_add_t_handler utm = utm"

definition vl_api_bind_uri_reply_t_handler ::
    "vpp_env \<Rightarrow> u32 \<Rightarrow> 'p udp_echo_main \<Rightarrow> 'p udp_echo_main option" where
  "vl_api_bind_uri_reply_t_handler env retval utm =
     (if retval \<noteq> 0 then
        (case format_api_error env utm [ucast (bswap32 retval)] of
           None \<Rightarrow> None
         | Some t \<Rightarrow> Some ((emit (Warning_api ''bind failed'' t) utm)\<lparr>state := STATE_FAILED\<rparr>))
      else Some (utm\<lparr>state := STATE_READY\<rparr>))"

text \<open>The table \<open>foreach_tcp_echo_msg\<close> that \<open>tcp_echo_api_hookup\<close> registers: one handler per
  message, with the results of the library calls it makes.\<close>

datatype api_event =
    Bind_uri_reply u32
  | Unbind_uri_reply int
  | Map_another_segment map_segment_msg int u32
  | Unmap_segment u64
  | Application_attach_reply attach_reply int
  | Application_detach_reply int
  | App_cut_through_registration_add

fun tcp_echo_api :: "vpp_env \<Rightarrow> api_event \<Rightarrow> 'p udp_echo_main \<Rightarrow> 'p udp_echo_main option" where
  "tcp_echo_api env (Bind_uri_reply retval) utm = vl_api_bind_uri_reply_t_handler env retval utm"
| "tcp_echo_api env (Unbind_uri_reply retval) utm = Some (vl_api_unbind_uri_reply_t_handler retval utm)"
| "tcp_echo_api env (Map_another_segment mp rv idx) utm =
     Some (vl_api_map_another_segment_t_handler mp rv idx utm)"
| "tcp_echo_api env (Unmap_segment h) utm = Some (vl_api_unmap_segment_t_handler env h utm)"
| "tcp_echo_api env (Application_attach_reply mp rv) utm =
     vl_api_application_attach_reply_t_handler env mp rv utm"
| "tcp_echo_api env (Application_detach_reply retval) utm =
     Some (vl_api_application_detach_reply_t_handler retval utm)"
| "tcp_echo_api env App_cut_through_registration_add utm =
     Some (vl_api_app_cut_through_registration_add_t_handler utm)"

section \<open>Session events\<close>

record accepted_msg =
  acc_handle :: u64
  acc_context :: u32
  acc_rx_fifo :: u64
  acc_tx_fifo :: u64
  acc_event_queue :: u64
  acc_ip :: ip46
  acc_is_ip4 :: u8
  acc_port :: u16

record disconnected_msg =
  dis_handle :: u64
  dis_context :: u32

record connected_msg =
  con_retval :: int
  con_rx_fifo :: u64
  con_tx_fifo :: u64
  con_ct_rx_fifo :: u64
  con_event_queue :: u64
  con_lcl_ip :: ip46
  con_is_ip4 :: u8
  con_lcl_port :: u16

record bound_msg =
  bnd_retval :: int
  bnd_rx_fifo :: u64
  bnd_tx_fifo :: u64
  bnd_lcl_ip :: ip46
  bnd_lcl_is_ip4 :: u8
  bnd_lcl_port :: u16
  bnd_evt_q :: u64

text \<open>Writing through the session pointer, and through the two fifo pointers.\<close>

definition upd_session ::
    "'p session_pool \<Rightarrow> nat \<Rightarrow> (app_session \<Rightarrow> app_session) \<Rightarrow> 'p udp_echo_main \<Rightarrow> 'p udp_echo_main" where
  "upd_session P i f utm = utm\<lparr>sessions := pool_upd P (sessions utm) i f\<rparr>"

definition set_fifo_session :: "ptr \<Rightarrow> u32 \<Rightarrow> 'p udp_echo_main \<Rightarrow> 'p udp_echo_main" where
  "set_fifo_session f i utm = utm\<lparr>fifo_client_session := (fifo_client_session utm)(f := i)\<rparr>"

text \<open>\<open>pool_get (utm->sessions, session)\<close>, with what follows it.\<close>

definition take_slot ::
    "'p session_pool \<Rightarrow> (nat \<Rightarrow> 'p udp_echo_main \<Rightarrow> 'p udp_echo_main option) \<Rightarrow> 'p udp_echo_main \<Rightarrow>
      'p udp_echo_main option" where
  "take_slot P k utm =
     (case pool_get P (sessions utm) of
        None \<Rightarrow> None
      | Some (i, p) \<Rightarrow> k i (utm\<lparr>sessions := p\<rparr>))"

definition note_start_time :: "vpp_env \<Rightarrow> 'p udp_echo_main \<Rightarrow> 'p udp_echo_main" where
  "note_start_time env utm =
     (if start_time utm = 0
      then (case read_clock env utm of (t, utm) \<Rightarrow> utm\<lparr>start_time := t\<rparr>) else utm)"

definition print_session_rate :: "'p session_pool \<Rightarrow> vpp_env \<Rightarrow> 'p udp_echo_main \<Rightarrow> 'p udp_echo_main" where
  "print_session_rate P env utm =
     (let n = pool_elts P (sessions utm)
      in if n \<noteq> 0 \<and> n mod 20000 = 0
         then (case read_clock env utm of
                 (now, utm) \<Rightarrow> emit (Session_rate n (now - start_time utm)) utm)
         else utm)"

definition session_accepted_handler ::
    "'p session_pool \<Rightarrow> vpp_env \<Rightarrow> accepted_msg \<Rightarrow> 'p udp_echo_main \<Rightarrow> 'p udp_echo_main option" where
  "session_accepted_handler P env mp utm =
     (let utm = note_start_time env utm;
          utm = utm\<lparr>vpp_event_queue := acc_event_queue mp\<rparr>
      in take_slot P (\<lambda>i utm.
        (let utm = upd_session P i (\<lambda>_. zero_session) utm;
             session_index = word_of_nat i;
             utm = upd_session P i (\<lambda>s. s\<lparr>session_index := session_index\<rparr>) utm;
             utm = set_fifo_session (acc_rx_fifo mp) session_index utm;
             utm = set_fifo_session (acc_tx_fifo mp) session_index utm;
             utm = upd_session P i (\<lambda>s. s\<lparr>rx_fifo := acc_rx_fifo mp, tx_fifo := acc_tx_fifo mp,
                     transport := (transport s)\<lparr>rmt_ip := acc_ip mp, tr_is_ip4 := acc_is_ip4 mp,
                       rmt_port := acc_port mp\<rparr>\<rparr>) utm;
             utm = utm\<lparr>session_index_by_vpp_handles :=
                     (session_index_by_vpp_handles utm)(acc_handle mp \<mapsto> ucast session_index)\<rparr>;
             utm = print_session_rate P env utm;
             utm = emit (Ctrl_evt (vpp_event_queue utm)
                     (Accepted_reply (acc_handle mp) (acc_context mp) 0)) utm
         in Some (utm\<lparr>state := STATE_READY\<rparr>))) utm)"

text \<open>The C code keeps the pointer \<open>session\<close> after \<open>pool_put\<close> and reads \<open>vpp_evt_q\<close> through it.\<close>

definition session_disconnected_handler ::
    "'p session_pool \<Rightarrow> disconnected_msg \<Rightarrow> 'p udp_echo_main \<Rightarrow> 'p udp_echo_main" where
  "session_disconnected_handler P mp utm =
     (case session_index_by_vpp_handles utm (dis_handle mp) of
        Some idx \<Rightarrow>
          (let i = unat idx;
               utm = utm\<lparr>session_index_by_vpp_handles :=
                       (session_index_by_vpp_handles utm)(dis_handle mp := None)\<rparr>;
               utm = emit (Warning ''disconnecting'') utm;
               utm = utm\<lparr>sessions := pool_put P (sessions utm) i\<rparr>
           in emit (Ctrl_evt (vpp_evt_q (pool_elt P (sessions utm) i))
                (Disconnected_reply (dis_handle mp) (dis_context mp) 0)) utm)
      | None \<Rightarrow> emit (Warning ''couldn't find session key'') utm)"

text \<open>What \<open>session_connected_handler\<close> needs to parse the connect URI: the library's input made
  from the vector, and the content of the uninitialised locals.\<close>

record 'i uri_env =
  ue_input :: "'i unformat_ops"
  ue_formats :: "'i uri_ops"
  ue_of_vector :: "u8 list \<Rightarrow> 'i"
  ue_junk :: "u16 list"
  ue_sep :: session_endpoint

text \<open>The part of the handler for a session that is not cut through: \<open>idx\<close> is its index.\<close>

definition connect_remote ::
    "'p session_pool \<Rightarrow> 'i uri_env \<Rightarrow> connected_msg \<Rightarrow> nat \<Rightarrow> 'p udp_echo_main \<Rightarrow> 'p udp_echo_main" where
  "connect_remote P ue mp i utm =
     (let idx = word_of_nat i;
          utm = utm\<lparr>connected_session := idx\<rparr>;
          utm = utm\<lparr>vpp_event_queue := con_event_queue mp\<rparr>;
          utm = set_fifo_session (con_rx_fifo mp) idx utm;
          utm = set_fifo_session (con_tx_fifo mp) idx utm;
          utm = upd_session P i (\<lambda>s. s\<lparr>transport := (transport s)\<lparr>lcl_ip := con_lcl_ip mp,
                  tr_is_ip4 := con_is_ip4 mp, lcl_port := con_lcl_port mp\<rparr>\<rparr>) utm
      in case unformat_uri (ue_input ue) (ue_formats ue) (ue_junk ue)
                (ue_of_vector ue (connect_uri utm)) (ue_sep ue) of
           (False, sep, _) \<Rightarrow>
             (emit (Warning ''can't figure out remote ip and port'') utm)\<lparr>state := STATE_FAILED\<rparr>
         | (True, sep, _) \<Rightarrow>
             (let utm = upd_session P i (\<lambda>s. s\<lparr>transport := (transport s)\<lparr>
                     rmt_ip := \<lparr>as_ip4 = sep_ip4 sep, as_ip6 = sep_ip6 sep\<rparr>,
                     rmt_port := sep_port sep\<rparr>,
                    is_dgram := (if is_connected utm = 0 then 1 else 0)\<rparr>) utm
              in utm\<lparr>state := STATE_READY\<rparr>))"

definition session_connected_handler ::
    "'p session_pool \<Rightarrow> vpp_env \<Rightarrow> 'i uri_env \<Rightarrow> connected_msg \<Rightarrow> 'p udp_echo_main \<Rightarrow> 'p udp_echo_main option" where
  "session_connected_handler P env ue mp utm =
     assert_that env (i_am_server utm = 0)
       (if con_retval mp \<noteq> 0 then Some (emit (Warning ''failed connect'') utm)
        else assert_that env (con_rx_fifo mp \<noteq> 0 \<and> con_tx_fifo mp \<noteq> 0)
          (take_slot P (\<lambda>i utm.
            (let idx = word_of_nat i;
                 utm = upd_session P i (\<lambda>s. s\<lparr>session_index := idx, rx_fifo := con_rx_fifo mp,
                         tx_fifo := con_tx_fifo mp\<rparr>) utm
             in if con_ct_rx_fifo mp \<noteq> 0 then
                  (let utm = emit (Warning ''cut-through session'') utm;
                       utm = upd_session P i (\<lambda>s. s\<lparr>vpp_evt_q := con_event_queue mp\<rparr>) utm;
                       utm = utm\<lparr>cut_through_session_index := idx\<rparr>;
                       utm = upd_session P i (\<lambda>s. s\<lparr>is_dgram := 0\<rparr>) utm;
                       utm = set_fifo_session (con_rx_fifo mp) idx utm;
                       utm = set_fifo_session (con_tx_fifo mp) idx utm
                   in Some (utm\<lparr>state := STATE_READY\<rparr>))
                else Some (connect_remote P ue mp i utm))) utm))"

definition session_bound_handler ::
    "'p session_pool \<Rightarrow> bound_msg \<Rightarrow> 'p udp_echo_main \<Rightarrow> 'p udp_echo_main option" where
  "session_bound_handler P mp utm =
     (if bnd_retval mp \<noteq> 0 then
        Some ((emit (Warning ''bind failed'') utm)\<lparr>state := STATE_FAILED\<rparr>)
      else take_slot P (\<lambda>i utm.
        (let utm = upd_session P i (\<lambda>_. zero_session) utm;
             session_index = word_of_nat i;
             utm = set_fifo_session (bnd_rx_fifo mp) session_index utm;
             utm = set_fifo_session (bnd_tx_fifo mp) session_index utm;
             utm = upd_session P i (\<lambda>s. s\<lparr>rx_fifo := bnd_rx_fifo mp, tx_fifo := bnd_tx_fifo mp,
                     transport := (transport s)\<lparr>lcl_ip := bnd_lcl_ip mp,
                       tr_is_ip4 := bnd_lcl_is_ip4 mp, lcl_port := bnd_lcl_port mp\<rparr>,
                     vpp_evt_q := bnd_evt_q mp\<rparr>) utm
         in Some (utm\<lparr>state := (if is_connected utm \<noteq> 0 then STATE_BOUND else STATE_READY)\<rparr>))) utm)"

datatype mq_event =
    Bound bound_msg
  | Accepted accepted_msg
  | Connected connected_msg
  | Disconnected disconnected_msg
  | Unhandled u8

fun handle_mq_event ::
    "'p session_pool \<Rightarrow> vpp_env \<Rightarrow> 'i uri_env \<Rightarrow> mq_event \<Rightarrow> 'p udp_echo_main \<Rightarrow> 'p udp_echo_main option" where
  "handle_mq_event P env ue (Bound mp) utm = session_bound_handler P mp utm"
| "handle_mq_event P env ue (Accepted mp) utm = session_accepted_handler P env mp utm"
| "handle_mq_event P env ue (Connected mp) utm = session_connected_handler P env ue mp utm"
| "handle_mq_event P env ue (Disconnected mp) utm = Some (session_disconnected_handler P mp utm)"
| "handle_mq_event P env ue (Unhandled t) utm = Some (emit (Warning ''unhandled'') utm)"

section \<open>Slots the handlers take\<close>

text \<open>\<open>p'\<close> is \<open>p\<close> with one more slot \<open>i\<close> in use, everything else as it was.\<close>

definition fresh_slot :: "'p session_pool \<Rightarrow> 'p \<Rightarrow> nat \<Rightarrow> 'p \<Rightarrow> bool" where
  "fresh_slot P p i p' \<longleftrightarrow>
     pool_valid P p' \<and> \<not> pool_live P p i \<and> i < 2 ^ 32 \<and>
     (\<forall>j. pool_live P p' j \<longleftrightarrow> j = i \<or> pool_live P p j) \<and>
     (\<forall>j. pool_live P p j \<longrightarrow> pool_elt P p' j = pool_elt P p j) \<and>
     pool_elts P p' = Suc (pool_elts P p)"

lemma pool_store:
  "pool_laws P \<Longrightarrow>
     slot_store (pool_live P) (pool_elts P) (pool_elt P) (pool_get P) (pool_put P)
       (pool_valid P) (pool_upd P) (\<lambda>_. True)"
  and pool_slots:
  "pool_laws P \<Longrightarrow>
     slot_pool (pool_live P) (pool_elts P) (pool_elt P) (pool_get P) (pool_put P)
       (pool_valid P)"
  by (simp_all add: pool_laws_def slot_store_def)

lemma fresh_slot_get:
  assumes L: "pool_laws P" and v: "pool_valid P p" and g: "pool_get P p = Some (i, p')"
  shows "fresh_slot P p i p'"
proof -
  note sp = pool_slots [OF L]
  have v': "pool_valid P p'" by (rule slot_pool.get_valid [OF sp v g])
  moreover have live: "pool_live P p' j \<longleftrightarrow> j = i \<or> pool_live P p j" for j
    by (rule slot_pool.get_live [OF sp v g])
  moreover have "i < 2 ^ 32" using L v' live [of i] by (auto simp: pool_laws_def)
  ultimately show ?thesis
    using slot_pool.get_fresh [OF sp v g] slot_pool.get_elt [OF sp v g]
      slot_pool.get_elts [OF sp v g] by (simp add: fresh_slot_def)
qed

lemma fresh_slot_upd:
  assumes L: "pool_laws P" and f: "fresh_slot P p i p'"
  shows "fresh_slot P p i (pool_upd P p' i g)"
proof -
  note st = pool_store [OF L]
  have v: "pool_valid P p'" and ni: "\<not> pool_live P p i" using f by (simp_all add: fresh_slot_def)
  have other: "pool_elt P (pool_upd P p' i g) j = pool_elt P p' j" if "pool_live P p j" for j
  proof -
    have "j \<noteq> i" using that ni by metis
    then show ?thesis using slot_store.upd_other [OF st v, where f = g and i = i] by simp
  qed
  show ?thesis
    using f slot_store.upd_valid [OF st v, where f = g and i = i] slot_store.upd_live [OF st v, where f = g and i = i]
      slot_store.upd_elts [OF st v, where f = g and i = i] other
    by (simp add: fresh_slot_def)
qed

lemma fresh_slot_elt:
  assumes L: "pool_laws P" and f: "fresh_slot P p i p'"
  shows "pool_elt P (pool_upd P p' i g) i = g (pool_elt P p' i)"
  using slot_store.upd_same [OF pool_store [OF L], where p = p' and f = g and i = i] f
  by (simp add: fresh_slot_def)

text \<open>An index below \<open>2 ^ 32\<close> survives the 32 and 64 bit fields it is stored in.\<close>

lemma index_word [simp]:
  "i < 2 ^ 32 \<Longrightarrow> unat (ucast (word_of_nat i :: u32) :: u64) = i"
  by (simp add: unat_up_ucast unsigned_of_nat take_bit_nat_eq_self)

lemma index_back [simp]: "ucast (ucast (w :: u32) :: u64) = w"
  by (rule bit_word_eqI) (auto simp: bit_simps)

lemma put_session:
  assumes L: "pool_laws P" and v: "pool_valid P p" and l: "pool_live P p i"
  shows "pool_valid P (pool_put P p i)" "pool_live P (pool_put P p i) j \<longleftrightarrow> j \<noteq> i \<and> pool_live P p j"
    "j \<noteq> i \<Longrightarrow> pool_elt P (pool_put P p i) j = pool_elt P p j"
    "Suc (pool_elts P (pool_put P p i)) = pool_elts P p"
  using slot_pool.put_valid [OF pool_slots [OF L] v l] slot_pool.put_live [OF pool_slots [OF L] v l]
    slot_pool.put_elt [OF pool_slots [OF L] v l] slot_pool.put_elts [OF pool_slots [OF L] v l]
  by blast+

section \<open>What each handler does\<close>

lemma upd_session_simps [simp]:
  "sessions (upd_session P i f m) = pool_upd P (sessions m) i f"
  "session_index_by_vpp_handles (upd_session P i f m) = session_index_by_vpp_handles m"
  "state (upd_session P i f m) = state m" "out (upd_session P i f m) = out m"
  "vpp_event_queue (upd_session P i f m) = vpp_event_queue m"
  "connect_uri (upd_session P i f m) = connect_uri m"
  "is_connected (upd_session P i f m) = is_connected m"
  "start_time (upd_session P i f m) = start_time m"
  "connected_session (upd_session P i f m) = connected_session m"
  "cut_through_session_index (upd_session P i f m) = cut_through_session_index m"
  "fifo_client_session (upd_session P i f m) = fifo_client_session m"
  by (simp_all add: upd_session_def)

lemma set_fifo_session_simps [simp]:
  "sessions (set_fifo_session f i m) = sessions m"
  "session_index_by_vpp_handles (set_fifo_session f i m) = session_index_by_vpp_handles m"
  "state (set_fifo_session f i m) = state m" "out (set_fifo_session f i m) = out m"
  "vpp_event_queue (set_fifo_session f i m) = vpp_event_queue m"
  "connect_uri (set_fifo_session f i m) = connect_uri m"
  "is_connected (set_fifo_session f i m) = is_connected m"
  "start_time (set_fifo_session f i m) = start_time m"
  "connected_session (set_fifo_session f i m) = connected_session m"
  "cut_through_session_index (set_fifo_session f i m) = cut_through_session_index m"
  "fifo_client_session (set_fifo_session f i m) = (fifo_client_session m)(f := i)"
  by (simp_all add: set_fifo_session_def)

lemma note_start_time_simps [simp]:
  "sessions (note_start_time env m) = sessions m"
  "session_index_by_vpp_handles (note_start_time env m) = session_index_by_vpp_handles m"
  "fifo_client_session (note_start_time env m) = fifo_client_session m"
  "out (note_start_time env m) = out m"
  by (simp_all add: note_start_time_def read_clock_def)

lemma print_session_rate_simps [simp]:
  "sessions (print_session_rate P env m) = sessions m"
  "session_index_by_vpp_handles (print_session_rate P env m) = session_index_by_vpp_handles m"
  "fifo_client_session (print_session_rate P env m) = fifo_client_session m"
  "vpp_event_queue (print_session_rate P env m) = vpp_event_queue m"
  by (simp_all add: print_session_rate_def read_clock_def Let_def)

lemma print_session_rate_out:
  "\<exists>xs. out (print_session_rate P env m) = out m @ xs \<and> (\<forall>q r. Ctrl_evt q r \<notin> set xs)"
  by (simp add: print_session_rate_def read_clock_def Let_def)

text \<open>The session an accept event creates.\<close>

definition accepted_session :: "nat \<Rightarrow> accepted_msg \<Rightarrow> app_session" where
  "accepted_session i mp =
     zero_session\<lparr>session_index := word_of_nat i, rx_fifo := acc_rx_fifo mp, tx_fifo := acc_tx_fifo mp,
       transport := (transport zero_session)\<lparr>rmt_ip := acc_ip mp, tr_is_ip4 := acc_is_ip4 mp,
         rmt_port := acc_port mp\<rparr>\<rparr>"

lemma take_slot_cases:
  assumes "take_slot P k m = Some m'"
  obtains i p where "pool_get P (sessions m) = Some (i, p)" "k i (m\<lparr>sessions := p\<rparr>) = Some m'"
  using assms by (auto simp: take_slot_def split: option.splits)

lemma accepted_effect:
  assumes L: "pool_laws P" and v: "pool_valid P (sessions m)"
    and h: "session_accepted_handler P env mp m = Some m'"
    and g: "pool_get P (sessions m) = Some (i, p)"
  shows "fresh_slot P (sessions m) i (sessions m')"
    and "pool_elt P (sessions m') i = accepted_session i mp"
    and "session_index_by_vpp_handles m' =
           (session_index_by_vpp_handles m)(acc_handle mp \<mapsto> ucast (word_of_nat i :: u32))"
    and "state m' = STATE_READY"
    and "\<exists>xs. out m' = out m @ xs @ [Ctrl_evt (acc_event_queue mp)
           (Accepted_reply (acc_handle mp) (acc_context mp) 0)] \<and>
           (\<forall>q r. Ctrl_evt q r \<notin> set xs)"
    and "fifo_client_session m' = (fifo_client_session m)
           (acc_rx_fifo mp := word_of_nat i, acc_tx_fifo mp := word_of_nat i)"
proof -
  note fr = fresh_slot_get [OF L v g]
  note up = fresh_slot_upd [OF L]
  note d = session_accepted_handler_def take_slot_def Let_def
  show "fresh_slot P (sessions m) i (sessions m')"
    using h fr g unfolding d by (auto simp: up)
  show "pool_elt P (sessions m') i = accepted_session i mp"
    using h fr g unfolding d
    by (auto simp: up fresh_slot_elt [OF L, of "sessions m"] accepted_session_def)
  show "session_index_by_vpp_handles m' =
      (session_index_by_vpp_handles m)(acc_handle mp \<mapsto> ucast (word_of_nat i :: u32))"
    using h g unfolding d by auto
  show "state m' = STATE_READY"
    using h g unfolding d by auto
  show "fifo_client_session m' = (fifo_client_session m)
      (acc_rx_fifo mp := word_of_nat i, acc_tx_fifo mp := word_of_nat i)"
    using h g unfolding d by auto
  have "\<exists>m2. m' = (emit (Ctrl_evt (acc_event_queue mp) (Accepted_reply (acc_handle mp) (acc_context mp) 0))
      (print_session_rate P env m2))\<lparr>state := STATE_READY\<rparr> \<and> out m2 = out m"
    using h g unfolding d by simp (drule sym, rule exI, rule conjI, assumption, simp)
  then obtain m2 where m2: "out m2 = out m"
    "out m' = out (print_session_rate P env m2) @ [Ctrl_evt (acc_event_queue mp)
      (Accepted_reply (acc_handle mp) (acc_context mp) 0)]" by force
  with print_session_rate_out [of P env m2]
  show "\<exists>xs. out m' = out m @ xs @ [Ctrl_evt (acc_event_queue mp)
      (Accepted_reply (acc_handle mp) (acc_context mp) 0)] \<and> (\<forall>q r. Ctrl_evt q r \<notin> set xs)"
    by force
qed

lemma accepted_aborts:
  "session_accepted_handler P env mp m = None \<longleftrightarrow> pool_get P (sessions m) = None"
  by (auto simp: session_accepted_handler_def take_slot_def Let_def split: option.splits)

lemma taken_slot:
  assumes "session_accepted_handler P env mp m = Some m'"
  obtains i p where "pool_get P (sessions m) = Some (i, p)"
  using assms accepted_aborts [of P env mp m] by fastforce

lemma connect_remote_effect:
  assumes L: "pool_laws P" and f: "fresh_slot P p i (sessions m)"
  shows "fresh_slot P p i (sessions (connect_remote P ue mp i m))"
    and "session_index_by_vpp_handles (connect_remote P ue mp i m) = session_index_by_vpp_handles m"
    and "state (connect_remote P ue mp i m) = STATE_FAILED \<or> state (connect_remote P ue mp i m) = STATE_READY"
    and "session_index (pool_elt P (sessions (connect_remote P ue mp i m)) i)
           = session_index (pool_elt P (sessions m) i)"
  using f fresh_slot_upd [OF L] fresh_slot_elt [OF L, of p i]
  by (auto simp: connect_remote_def Let_def split: prod.split bool.split)

lemma connected_effect:
  assumes L: "pool_laws P" and v: "pool_valid P (sessions m)"
    and h: "session_connected_handler P env ue mp m = Some m'" and ok: "con_retval mp = 0"
    and g: "pool_get P (sessions m) = Some (i, p)"
  shows "fresh_slot P (sessions m) i (sessions m')"
    and "session_index_by_vpp_handles m' = session_index_by_vpp_handles m"
    and "session_index (pool_elt P (sessions m') i) = word_of_nat i"
proof -
  note d = session_connected_handler_def take_slot_def Let_def assert_that_def
  note e = h ok g fresh_slot_get [OF L v g]
  note f = fresh_slot_upd [OF L] fresh_slot_elt [OF L, of "sessions m" i]
    connect_remote_effect(1,2,4) [OF L, of "sessions m" i]
  show "fresh_slot P (sessions m) i (sessions m')"
    using e unfolding d by (auto simp: f split: if_splits)
  show "session_index_by_vpp_handles m' = session_index_by_vpp_handles m"
    using e unfolding d by (auto simp: f split: if_splits)
  show "session_index (pool_elt P (sessions m') i) = word_of_nat i"
    using e unfolding d by (auto simp: f split: if_splits)
qed

lemma bound_effect:
  assumes L: "pool_laws P" and v: "pool_valid P (sessions m)"
    and h: "session_bound_handler P mp m = Some m'" and ok: "bnd_retval mp = 0"
    and g: "pool_get P (sessions m) = Some (i, p)"
  shows "fresh_slot P (sessions m) i (sessions m')"
    and "session_index_by_vpp_handles m' = session_index_by_vpp_handles m"
    and "pool_elt P (sessions m') i =
           zero_session\<lparr>rx_fifo := bnd_rx_fifo mp, tx_fifo := bnd_tx_fifo mp,
             transport := (transport zero_session)\<lparr>lcl_ip := bnd_lcl_ip mp,
               tr_is_ip4 := bnd_lcl_is_ip4 mp, lcl_port := bnd_lcl_port mp\<rparr>,
             vpp_evt_q := bnd_evt_q mp\<rparr>"
    and "state m' = (if is_connected m \<noteq> 0 then STATE_BOUND else STATE_READY)"
proof -
  note d = session_bound_handler_def take_slot_def Let_def
  note e = h ok g fresh_slot_get [OF L v g]
  note f = fresh_slot_upd [OF L] fresh_slot_elt [OF L, of "sessions m" i]
  show "fresh_slot P (sessions m) i (sessions m')" using e unfolding d by (auto simp: f)
  show "session_index_by_vpp_handles m' = session_index_by_vpp_handles m"
    using e unfolding d by auto
  show "pool_elt P (sessions m') i =
      zero_session\<lparr>rx_fifo := bnd_rx_fifo mp, tx_fifo := bnd_tx_fifo mp,
        transport := (transport zero_session)\<lparr>lcl_ip := bnd_lcl_ip mp,
          tr_is_ip4 := bnd_lcl_is_ip4 mp, lcl_port := bnd_lcl_port mp\<rparr>,
        vpp_evt_q := bnd_evt_q mp\<rparr>"
    using e unfolding d by (auto simp: f)
  show "state m' = (if is_connected m \<noteq> 0 then STATE_BOUND else STATE_READY)"
    using e unfolding d by auto
qed

lemma disconnected_effect:
  assumes k: "session_index_by_vpp_handles m (dis_handle mp) = Some idx"
  shows "session_disconnected_handler P mp m =
     m\<lparr>session_index_by_vpp_handles := (session_index_by_vpp_handles m)(dis_handle mp := None),
       sessions := pool_put P (sessions m) (unat idx),
       out := out m @ [Warning ''disconnecting'',
         Ctrl_evt (vpp_evt_q (pool_elt P (pool_put P (sessions m) (unat idx)) (unat idx)))
           (Disconnected_reply (dis_handle mp) (dis_context mp) 0)]\<rparr>"
  using k by (simp add: session_disconnected_handler_def Let_def emit_def)

section \<open>The session table\<close>

text \<open>Every handle in the table leads to a live session that knows its own index, and no two
  handles lead to the same one.\<close>

definition handles_ok :: "'p session_pool \<Rightarrow> 'p udp_echo_main \<Rightarrow> bool" where
  "handles_ok P m \<longleftrightarrow>
     pool_valid P (sessions m) \<and>
     (\<forall>h v. session_index_by_vpp_handles m h = Some v \<longrightarrow>
        pool_live P (sessions m) (unat v) \<and>
        session_index (pool_elt P (sessions m) (unat v)) = ucast v) \<and>
     inj_on (session_index_by_vpp_handles m) (dom (session_index_by_vpp_handles m))"

lemma handles_okI [inv_intros]:
  assumes "pool_valid P (sessions m)"
    and "\<And>h v. session_index_by_vpp_handles m h = Some v \<Longrightarrow> pool_live P (sessions m) (unat v)"
    and "\<And>h v. session_index_by_vpp_handles m h = Some v \<Longrightarrow>
           session_index (pool_elt P (sessions m) (unat v)) = ucast v"
    and "\<And>h k v. session_index_by_vpp_handles m h = Some v \<Longrightarrow>
           session_index_by_vpp_handles m k = Some v \<Longrightarrow> h = k"
  shows "handles_ok P m"
  using assms by (auto simp: handles_ok_def inj_on_def dom_def)

lemma handles_okD:
  assumes "handles_ok P m"
  shows "pool_valid P (sessions m)"
    and "session_index_by_vpp_handles m h = Some v \<Longrightarrow> pool_live P (sessions m) (unat v)"
    and "session_index_by_vpp_handles m h = Some v \<Longrightarrow>
           session_index (pool_elt P (sessions m) (unat v)) = ucast v"
    and "session_index_by_vpp_handles m h = Some v \<Longrightarrow>
           session_index_by_vpp_handles m k = Some v \<Longrightarrow> h = k"
  using assms by (auto simp: handles_ok_def inj_on_def dom_def)

text \<open>Taking a slot for something else keeps the table; so does entering the new slot.\<close>

lemma handles_ok_fresh:
  assumes ok: "handles_ok P m" and f: "fresh_slot P (sessions m) i (sessions m')"
    and t: "session_index_by_vpp_handles m' = session_index_by_vpp_handles m"
  shows "handles_ok P m'"
  using f handles_okD [OF ok]
  by (intro inv_intros) (auto simp: t fresh_slot_def)

lemma handles_ok_enter:
  assumes ok: "handles_ok P m" and f: "fresh_slot P (sessions m) i (sessions m')"
    and t: "session_index_by_vpp_handles m' =
              (session_index_by_vpp_handles m)(h \<mapsto> ucast (word_of_nat i :: u32))"
    and s: "session_index (pool_elt P (sessions m') i) = word_of_nat i"
  shows "handles_ok P m'"
proof -
  have i: "unat (ucast (word_of_nat i :: u32) :: u64) = i"
    using f by (simp add: fresh_slot_def)
  have ne: "session_index_by_vpp_handles m k \<noteq> Some (ucast (word_of_nat i :: u32))" for k
    using handles_okD(2) [OF ok, of k] f i by (auto simp: fresh_slot_def)
  show ?thesis
    using f handles_okD [OF ok] s i ne
    by (intro inv_intros) (auto simp: t fresh_slot_def split: if_splits)
qed

lemma handles_ok_remove:
  assumes L: "pool_laws P" and ok: "handles_ok P m"
    and k: "session_index_by_vpp_handles m h = Some idx"
    and p: "sessions m' = pool_put P (sessions m) (unat idx)"
    and t: "session_index_by_vpp_handles m' = (session_index_by_vpp_handles m)(h := None)"
  shows "handles_ok P m'"
proof -
  note put = put_session [OF L handles_okD(1) [OF ok] handles_okD(2) [OF ok k]]
  have ne: "unat v \<noteq> unat idx" if "session_index_by_vpp_handles m k' = Some v" "k' \<noteq> h" for k' v
    using handles_okD(4) [OF ok k] that by (metis word_unat_eq_iff)
  show ?thesis
    using handles_okD [OF ok] ne
    by (intro inv_intros) (auto simp: t p put split: if_splits)
qed

lemma handles_ok_same:
  "handles_ok P m \<Longrightarrow> sessions m' = sessions m \<Longrightarrow>
     session_index_by_vpp_handles m' = session_index_by_vpp_handles m \<Longrightarrow> handles_ok P m'"
  by (simp add: handles_ok_def)

lemma mq_event_handles:
  assumes L: "pool_laws P" and ok: "handles_ok P m" and h: "handle_mq_event P env ue e m = Some m'"
  shows "handles_ok P m'"
proof (cases e)
  case (Bound mp)
  show ?thesis
  proof (cases "bnd_retval mp = 0")
    case True
    with h Bound obtain i p where "pool_get P (sessions m) = Some (i, p)"
      by (auto simp: session_bound_handler_def elim: take_slot_cases)
    with h Bound True show ?thesis
      using handles_ok_fresh [OF ok] bound_effect(1,2) [OF L handles_okD(1) [OF ok]] by fastforce
  qed (use h Bound ok in \<open>auto simp: session_bound_handler_def intro: handles_ok_same\<close>)
next
  case (Accepted mp)
  with h have h': "session_accepted_handler P env mp m = Some m'" by simp
  then obtain i p where g: "pool_get P (sessions m) = Some (i, p)" by (rule taken_slot)
  note eff = accepted_effect [OF L handles_okD(1) [OF ok] h' g]
  show ?thesis
    by (rule handles_ok_enter [OF ok eff(1,3)]) (simp add: eff(2) accepted_session_def)
next
  case (Connected mp)
  show ?thesis
  proof (cases "con_retval mp = 0")
    case True
    with h Connected obtain i p where "pool_get P (sessions m) = Some (i, p)"
      by (auto simp: session_connected_handler_def assert_that_def elim: take_slot_cases split: if_splits)
    with h Connected True show ?thesis
      using handles_ok_fresh [OF ok] connected_effect(1,2) [OF L handles_okD(1) [OF ok]] by fastforce
  qed (use h Connected ok in \<open>auto simp: session_connected_handler_def assert_that_def
        intro: handles_ok_same split: if_splits\<close>)
next
  case (Disconnected mp)
  show ?thesis
  proof (cases "session_index_by_vpp_handles m (dis_handle mp)")
    case None
    with h Disconnected ok show ?thesis
      by (auto simp: session_disconnected_handler_def intro: handles_ok_same)
  next
    case (Some idx)
    with h Disconnected disconnected_effect [OF Some] show ?thesis
      by (intro handles_ok_remove [OF L ok Some]) auto
  qed
qed (use h ok in \<open>auto intro: handles_ok_same\<close>)

interpretation mq: guarded_machine "handle_mq_event P env ue"
  "\<lambda>m. pool_laws P \<and> handles_ok P m" "\<lambda>_ _. True" for P env ue
  by unfold_locales (auto intro: mq_event_handles)

lemma handles_ok_zero: "pool_valid P p \<Longrightarrow> handles_ok P (udp_echo_main_zero p)"
  by (simp add: handles_ok_def udp_echo_main_zero_def)

lemma session_table_run:
  assumes "pool_laws P" and "pool_valid P p"
    and "run_steps (handle_mq_event P env ue) es (udp_echo_main_zero p) = Some m"
  shows "handles_ok P m"
  using mq.run_inv [OF _ _ assms(3)] assms(1,2) handles_ok_zero [of P p] by simp

text \<open>C1: whatever messages arrive, in whatever order, the table that maps VPP's session handles
  to sessions stays sound from the program's start on: each handle in it leads to a session that
  is in use and carries its own index, and two handles never share a session.\<close>

theorem session_table_sound:
  assumes "pool_laws P" and "pool_valid P p"
    and "run_steps (handle_mq_event P env ue) es (udp_echo_main_zero p) = Some m"
    and "session_index_by_vpp_handles m h = Some v"
  shows "pool_live P (sessions m) (unat v) \<and>
         session_index (pool_elt P (sessions m) (unat v)) = ucast v \<and>
         (\<forall>k. session_index_by_vpp_handles m k = Some v \<longrightarrow> k = h)"
  using handles_okD(2-4) [OF session_table_run [OF assms(1-3)] assms(4)] by blast

text \<open>Inputs for the witnesses: an accept message, and the environment of the connect handler.\<close>

definition demo_accepted :: "u64 \<Rightarrow> accepted_msg" where
  "demo_accepted h =
     \<lparr>acc_handle = h, acc_context = 9, acc_rx_fifo = 0x1000, acc_tx_fifo = 0x2000,
      acc_event_queue = 0x3000, acc_ip = zero_ip46, acc_is_ip4 = 1, acc_port = 80\<rparr>"

definition demo_ue :: "(u64 list \<times> nat) uri_env" where
  "demo_ue =
     \<lparr>ue_input = buffer_ops, ue_formats = demo_uri_ops 1234,
      ue_of_vector = (\<lambda>v. (map ucast v, 0)), ue_junk = replicate 8 7,
      ue_sep = \<lparr>sep_ip4 = [], sep_ip6 = [], sep_port = 0, sep_is_ip4 = 0\<rparr>\<rparr>"

lemma demo_get_empty: "pool_get demo_pool [] = Some (0, [(True, zero_session)])"
  by (simp add: demo_pool_def demo_get_def)

lemma demo_accept_run:
  obtains m where "handle_mq_event demo_pool demo_env demo_ue (Accepted (demo_accepted h))
    (udp_echo_main_zero []) = Some m"
  using accepted_aborts [of demo_pool demo_env "demo_accepted h" "udp_echo_main_zero []"] demo_get_empty
  by (cases "session_accepted_handler demo_pool demo_env (demo_accepted h) (udp_echo_main_zero [])")
    (auto simp: udp_echo_main_zero_def)

lemma demo_valid: "pool_valid demo_pool []"
  by (simp add: demo_pool_def)

theorem session_table_sound_witness:
  "\<exists>m. run_steps (handle_mq_event demo_pool demo_env demo_ue) [Accepted (demo_accepted 77)]
          (udp_echo_main_zero []) = Some m \<and>
       session_index_by_vpp_handles m 77 = Some 0 \<and> pool_live demo_pool (sessions m) 0"
proof -
  obtain m where a: "handle_mq_event demo_pool demo_env demo_ue (Accepted (demo_accepted 77))
      (udp_echo_main_zero []) = Some m" by (rule demo_accept_run)
  then have r: "run_steps (handle_mq_event demo_pool demo_env demo_ue) [Accepted (demo_accepted 77)]
      (udp_echo_main_zero []) = Some m" by simp
  have k: "session_index_by_vpp_handles m 77 = Some 0"
    using accepted_effect(3) [OF demo_pool_laws _ _ _, of "udp_echo_main_zero []"] a demo_get_empty
    by (auto simp: udp_echo_main_zero_def demo_pool_def demo_accepted_def)
  have "pool_live demo_pool (sessions m) 0"
    using session_table_sound [OF demo_pool_laws demo_valid r k] by simp
  with r k show ?thesis by blast
qed

text \<open>C12: an accepted session gets a slot that no other session uses and that starts cleared
  apart from what the message carries; the message's handle leads to it, both fifos point back
  to it, every other session is untouched, and exactly one reply, of success, goes to the queue
  the message names, under the message's handle and context.\<close>

theorem accept_registers:
  assumes "pool_laws P" and "pool_valid P (sessions m)"
    and "session_accepted_handler P env mp m = Some m'"
  shows "\<exists>i xs. \<not> pool_live P (sessions m) i \<and> pool_live P (sessions m') i \<and>
     pool_elt P (sessions m') i = accepted_session i mp \<and>
     session_index_by_vpp_handles m' (acc_handle mp) = Some (of_nat i) \<and>
     (acc_rx_fifo mp \<noteq> acc_tx_fifo mp \<longrightarrow> fifo_client_session m' (acc_rx_fifo mp) = of_nat i) \<and>
     fifo_client_session m' (acc_tx_fifo mp) = of_nat i \<and>
     (\<forall>j. pool_live P (sessions m) j \<longrightarrow>
        pool_live P (sessions m') j \<and> pool_elt P (sessions m') j = pool_elt P (sessions m) j) \<and>
     out m' = out m @ xs @ [Ctrl_evt (acc_event_queue mp)
       (Accepted_reply (acc_handle mp) (acc_context mp) 0)] \<and>
     (\<forall>q r. Ctrl_evt q r \<notin> set xs) \<and> state m' = STATE_READY"
proof -
  obtain i p where g: "pool_get P (sessions m) = Some (i, p)" using taken_slot [OF assms(3)] .
  note eff = accepted_effect [OF assms g]
  from eff(5) obtain xs where xs: "out m' = out m @ xs @ [Ctrl_evt (acc_event_queue mp)
      (Accepted_reply (acc_handle mp) (acc_context mp) 0)]" "\<forall>q r. Ctrl_evt q r \<notin> set xs" by blast
  have i: "(ucast (word_of_nat i :: u32) :: u64) = of_nat i"
    using eff(1) by (simp add: word_unat_eq_iff [of "ucast _"] unsigned_of_nat take_bit_nat_eq_self fresh_slot_def)
  show ?thesis
    by (intro exI [of _ i] exI [of _ xs])
      (use eff(1-4,6) xs i in \<open>auto simp: fresh_slot_def\<close>)
qed

theorem accept_registers_witness:
  "\<exists>m'. session_accepted_handler demo_pool demo_env (demo_accepted 5) (udp_echo_main_zero []) = Some m' \<and>
     session_index_by_vpp_handles m' 5 \<noteq> None \<and> Ctrl_evt 0x3000 (Accepted_reply 5 9 0) \<in> set (out m')"
proof -
  obtain m' where a: "session_accepted_handler demo_pool demo_env (demo_accepted 5) (udp_echo_main_zero []) = Some m'"
    using demo_accept_run [of 5] by auto
  from accept_registers [OF demo_pool_laws _ a] a show ?thesis
    by (auto simp: udp_echo_main_zero_def demo_pool_def demo_accepted_def)
qed

text \<open>C13: a disconnect for a handle in the table frees the session of that handle and no other,
  forgets the handle and sends one reply of success under the message's handle and context; a
  disconnect for an unknown handle changes nothing and sends no reply.\<close>

theorem disconnect_frees:
  assumes "pool_laws P" and "handles_ok P m"
  shows "(case session_index_by_vpp_handles m (dis_handle mp) of
      None \<Rightarrow> session_disconnected_handler P mp m = emit (Warning ''couldn't find session key'') m
    | Some idx \<Rightarrow>
        (let m' = session_disconnected_handler P mp m
         in (\<forall>j. pool_live P (sessions m') j \<longleftrightarrow> j \<noteq> unat idx \<and> pool_live P (sessions m) j) \<and>
            Suc (pool_elts P (sessions m')) = pool_elts P (sessions m) \<and>
            session_index_by_vpp_handles m' = (session_index_by_vpp_handles m)(dis_handle mp := None) \<and>
            (\<exists>q. out m' = out m @ [Warning ''disconnecting'',
               Ctrl_evt q (Disconnected_reply (dis_handle mp) (dis_context mp) 0)])))"
proof (cases "session_index_by_vpp_handles m (dis_handle mp)")
  case None
  then show ?thesis by (simp add: session_disconnected_handler_def)
next
  case (Some idx)
  note put = put_session [OF assms(1) handles_okD(1,2) [OF assms(2)], OF Some]
  show ?thesis using Some disconnected_effect [OF Some, of P] put by (simp add: Let_def)
qed

theorem disconnect_frees_witness:
  "session_disconnected_handler demo_pool \<lparr>dis_handle = 4, dis_context = 0\<rparr> (udp_echo_main_zero [])
     = emit (Warning ''couldn't find session key'') (udp_echo_main_zero [])"
  using disconnect_frees [OF demo_pool_laws handles_ok_zero [OF demo_valid],
      of "\<lparr>dis_handle = 4, dis_context = 0\<rparr>"]
  by (simp add: udp_echo_main_zero_def)

text \<open>The reply to the disconnect of an accepted session never reaches VPP's queue. The accept
  handler stores the queue of its message in the program's state only and leaves the session's
  own \<open>vpp_evt_q\<close> cleared, so the disconnect handler sends its reply to the null queue; the
  tables themselves return to what they were.\<close>

theorem disconnect_reply_lost:
  assumes "pool_laws P" and "pool_keeps P" and "handles_ok P m"
    and "session_index_by_vpp_handles m (acc_handle a) = None"
    and "session_accepted_handler P env a m = Some m'" and "dis_handle d = acc_handle a"
  shows "Ctrl_evt NULL (Disconnected_reply (acc_handle a) (dis_context d) 0)
           = last (out (session_disconnected_handler P d m')) \<and>
         session_index_by_vpp_handles (session_disconnected_handler P d m')
           = session_index_by_vpp_handles m \<and>
         pool_elts P (sessions (session_disconnected_handler P d m')) = pool_elts P (sessions m)"
proof -
  note v = handles_okD(1) [OF assms(3)]
  obtain i p where g: "pool_get P (sessions m) = Some (i, p)" using taken_slot [OF assms(5)] .
  note eff = accepted_effect [OF assms(1) v assms(5) g]
  have i: "unat (ucast (word_of_nat i :: u32) :: u64) = i"
    using eff(1) by (simp add: fresh_slot_def)
  have live: "pool_live P (sessions m') i" and v': "pool_valid P (sessions m')"
    using eff(1) by (simp_all add: fresh_slot_def)
  have k: "session_index_by_vpp_handles m' (dis_handle d) = Some (ucast (word_of_nat i :: u32))"
    using eff(3) assms(6) by simp
  have q: "vpp_evt_q (pool_elt P (pool_put P (sessions m') i) i) = NULL"
    using assms(2) eff(2) by (simp add: pool_keeps_def accepted_session_def zero_session_def)
  have n: "pool_elts P (pool_put P (sessions m') i) = pool_elts P (sessions m)"
    using put_session(4) [OF assms(1) v' live] eff(1) by (simp add: fresh_slot_def)
  have t: "(session_index_by_vpp_handles m')(acc_handle a := None) = session_index_by_vpp_handles m"
    using eff(3) assms(4) by (simp add: fun_upd_idem)
  show ?thesis
    using disconnected_effect [OF k, of P] n t q assms(6) by (simp add: i)
qed

theorem disconnect_reply_lost_witness:
  "\<exists>m'. session_accepted_handler demo_pool demo_env (demo_accepted 5) (udp_echo_main_zero []) = Some m' \<and>
     last (out (session_disconnected_handler demo_pool \<lparr>dis_handle = 5, dis_context = 6\<rparr> m'))
       = Ctrl_evt NULL (Disconnected_reply 5 6 0)"
proof -
  obtain m' where a: "session_accepted_handler demo_pool demo_env (demo_accepted 5) (udp_echo_main_zero []) = Some m'"
    using demo_accept_run [of 5] by auto
  from disconnect_reply_lost [OF demo_pool_laws demo_pool_keeps handles_ok_zero [OF demo_valid] _ a,
      of "\<lparr>dis_handle = 5, dis_context = 6\<rparr>"] a
  show ?thesis by (auto simp: udp_echo_main_zero_def demo_accepted_def)
qed

section \<open>The states the API thread can reach\<close>

lemmas api_handler_defs =
  vl_api_application_attach_reply_t_handler_def vl_api_application_detach_reply_t_handler_def
  vl_api_map_another_segment_t_handler_def vl_api_unmap_segment_t_handler_def
  vl_api_unbind_uri_reply_t_handler_def vl_api_bind_uri_reply_t_handler_def
  vl_api_app_cut_through_registration_add_t_handler_def

text \<open>The state after a message, and what the API thread leaves alone.\<close>

fun state_after :: "api_event \<Rightarrow> connection_state \<Rightarrow> connection_state" where
  "state_after (Bind_uri_reply retval) s = STATE_READY"
| "state_after (Unbind_uri_reply retval) s = STATE_START"
| "state_after (Map_another_segment mp rv idx) s = s"
| "state_after (Unmap_segment h) s = s"
| "state_after (Application_attach_reply mp rv) s =
     (if ar_retval mp \<noteq> 0 then STATE_FAILED
      else if ar_segment_name_length mp \<noteq> 0 \<and> rv = 0 then STATE_ATTACHED else s)"
| "state_after (Application_detach_reply retval) s = STATE_DETACHED"
| "state_after App_cut_through_registration_add s = s"

lemma api_state:
  "tcp_echo_api env e m = Some m' \<Longrightarrow>
     state m' = state_after e (state m) \<and> sessions m' = sessions m \<and>
     session_index_by_vpp_handles m' = session_index_by_vpp_handles m"
  by (cases e)
    (auto simp: api_handler_defs assert_that_def format_api_error_def Let_def split: if_splits option.splits)

interpretation api: guarded_machine "tcp_echo_api env" "\<lambda>m. state m \<noteq> STATE_BOUND" "\<lambda>_ _. True" for env
proof unfold_locales
  fix s e and s' :: "'a udp_echo_main"
  assume "state s \<noteq> STATE_BOUND" and "tcp_echo_api env e s = Some s'"
  then show "state s' \<noteq> STATE_BOUND"
    using api_state [of env e s s'] by (cases e) (auto split: if_splits)
qed

text \<open>C15: the API thread alone never brings the program to \<open>STATE_BOUND\<close>, whatever replies VPP
  sends: a bind that succeeds goes to \<open>STATE_READY\<close>. A server on a connected URI waits for
  \<open>STATE_BOUND\<close> before it starts to read the queue whose handler could set it.\<close>

theorem api_never_bound:
  assumes "state m \<noteq> STATE_BOUND" and "run_steps (tcp_echo_api env) es m = Some m'"
  shows "state m' \<noteq> STATE_BOUND"
  by (rule api.run_inv [OF assms(1) _ assms(2)]) simp

theorem api_never_bound_witness:
  "(case run_steps (tcp_echo_api demo_env) [Bind_uri_reply 0] (udp_echo_main_zero ()) of
      Some m \<Rightarrow> state m \<noteq> STATE_BOUND \<and> state m = STATE_READY | None \<Rightarrow> False)"
  using api_never_bound [of "udp_echo_main_zero ()" demo_env "[Bind_uri_reply 0]"]
  by (simp add: udp_echo_main_zero_def vl_api_bind_uri_reply_t_handler_def)

text \<open>A segment VPP announces is attached under the announced name and size and entered under
  its handle in host order; the unmap of the same handle removes the entry again, leaves the
  program's other tables alone, and deletes the segment whose number it reads from the entry it
  has just removed.\<close>

theorem segment_map_unmap:
  assumes "segments_table m (bswap64 (ms_segment_handle mp)) = None"
  shows "(let m1 = vl_api_map_another_segment_t_handler mp 0 idx m;
              m2 = vl_api_unmap_segment_t_handler env (ms_segment_handle mp) m1
          in out m1 = out m @ [Segment_attach (ms_segment_name mp) (ms_segment_size mp),
                               Warning ''Mapped new segment''] \<and>
             segments_table m1 = (segments_table m)(bswap64 (ms_segment_handle mp) \<mapsto> ucast idx) \<and>
             segments_table m2 = segments_table m \<and> state m2 = state m \<and> sessions m2 = sessions m \<and>
             Segment_delete (ucast (unset_cell env (ucast idx))) \<in> set (out m2))"
  using assms
  by (simp add: vl_api_map_another_segment_t_handler_def vl_api_unmap_segment_t_handler_def Let_def
      fun_upd_idem)

theorem segment_map_unmap_witness:
  "(let m = udp_echo_main_zero ();
        m1 = vl_api_map_another_segment_t_handler
               \<lparr>ms_segment_name = [65], ms_segment_size = 8, ms_segment_handle = 1\<rparr> 0 3 m;
        m2 = vl_api_unmap_segment_t_handler demo_env 1 m1
    in segments_table m2 = Map.empty \<and> Segment_delete 3 \<in> set (out m2))"
  using segment_map_unmap [of "udp_echo_main_zero ()"
      "\<lparr>ms_segment_name = [65], ms_segment_size = 8, ms_segment_handle = 1\<rparr>" 3 demo_env]
  by (simp add: udp_echo_main_zero_def demo_env_def Let_def)

section \<open>The texts of errors\<close>

lemma fold_map_lookup:
  assumes "distinct (map f xs)" and "x \<in> set xs"
  shows "fold (\<lambda>x t. t(f x \<mapsto> g x)) xs t0 (f x) = Some (g x)"
  using assms
proof (induction xs arbitrary: t0)
  case (Cons y ys)
  have other: "fold (\<lambda>x t. t(f x \<mapsto> g x)) zs t k = t k" if "k \<notin> f ` set zs" for zs t k
    using that by (induction zs arbitrary: t) auto
  show ?case
  proof (cases "x = y")
    case True
    with Cons.prems have "f x \<notin> f ` set ys" by simp
    with True show ?thesis using other [of "f x" ys] by (simp del: fun_upd_apply) simp
  qed (use Cons in auto)
qed simp

text \<open>\<open>format_api_error\<close> finds the text of every entry of VPP's list of errors, whose numbers
  are distinct and negative, when it is given the program's state and the error number.\<close>

theorem error_text_found:
  assumes "distinct (map fst errs)" and "list_all (\<lambda>(v, s). - (2 ^ 31) \<le> v \<and> v < 0 \<and> v \<noteq> -99) errs"
    and "(v, s) \<in> set errs" and "sint (ucast arg :: u32) = v"
  shows "format_api_error env (init_error_string_table errs m) [main_addr env, arg] = Some (Text s)"
proof -
  let ?f = "\<lambda>e :: int \<times> string. uword_of_int (- fst e)"
  have range: "- (2 ^ 31) \<le> w \<and> w < 0 \<and> w \<noteq> -99" if "(w, t) \<in> set errs" for w t
    using assms(2) that by (auto simp: list_all_iff)
  have small: "uint (uword_of_int (- w)) = - w" if "(w, t) \<in> set errs" for w t
    using range [OF that] unfolding uword_of_int_def
    by (subst uint_word_of_int_eq) (auto simp: take_bit_int_eq_self)
  have "inj_on ?f (set errs)"
  proof (rule inj_onI)
    fix a b assume ab: "a \<in> set errs" "b \<in> set errs" "?f a = ?f b"
    obtain wa ta wb tb where p: "a = (wa, ta)" "b = (wb, tb)" by fastforce
    have "uint (uword_of_int (- wa)) = uint (uword_of_int (- wb))" using ab(3) p by simp
    then have "wa = wb" using small [of wa ta] small [of wb tb] ab(1,2) p by simp
    then show "a = b" using assms(1) ab(1,2) p by (auto dest: eq_key_imp_eq_value)
  qed
  then have d: "distinct (map ?f errs)"
    using assms(1) by (simp add: distinct_map)
  have ne: "uword_of_int (- v) \<noteq> 99"
    using small [OF assms(3)] range [OF assms(3)] by (auto dest!: arg_cong [of _ _ uint])
  have "fold (\<lambda>(v, s) t. t(uword_of_int (- v) \<mapsto> s)) errs Map.empty (uword_of_int (- v)) = Some s"
    using fold_map_lookup [OF d assms(3), of snd Map.empty] by (simp add: case_prod_beta')
  then show ?thesis
    using ne assms(4) by (simp add: format_api_error_def init_error_string_table_def)
qed

theorem error_text_found_witness:
  "format_api_error demo_env
     (init_error_string_table [(-1, ''Unspecified''), (-3, ''Invalid value'')] (udp_echo_main_zero ()))
     [0x601000, 0xFFFFFFFD] = Some (Text ''Invalid value'')"
proof -
  have e: "sint (ucast (0xFFFFFFFD :: u64) :: u32) = (- 3 :: int)" by code_simp
  show ?thesis
    using error_text_found [of "[(-1, ''Unspecified''), (-3, ''Invalid value'')]", OF _ _ _ e,
        where s = "''Invalid value''" and env = demo_env and m = "udp_echo_main_zero ()"]
    by (simp add: demo_env_def)
qed


end
