(* ===== verification/UdpData.thy ===== *)
theory UdpData
  imports UdpHandlers Status
begin

text \<open>
  The data path of \<open>src/src/udp-echo/main.c\<close>: the server's echo of what a session receives
  (\<open>server_handle_fifo_event_rx\<close>, metered by \<open>RECORD\<close> of \<open>status.h\<close>), the client's test
  stream (\<open>send_test_chunk\<close>, \<open>recv_test_chunk\<close>, \<open>client_send_data\<close>) and the cut-through
  thread.

  The fifos and the application socket layer belong to VPP: their operations are the fields of
  \<open>fifo_io\<close>, over a world of any type. Loops that a library call can keep going run on fuel;
  \<open>None\<close> is fuel that ran out, or an access outside a buffer.
\<close>

section \<open>The library's operations\<close>

text \<open>A receive returns its result and the bytes it put at the start of the buffer;
  \<open>time_to_stop_now\<close> is the volatile flag. The last three fields are only used to state laws:
  everything received and sent so far, and how many bytes a fifo holds.\<close>

record 'w fifo_io =
  svm_fifo_max_dequeue :: "ptr \<Rightarrow> 'w \<Rightarrow> u32"
  svm_fifo_max_enqueue :: "ptr \<Rightarrow> 'w \<Rightarrow> u32"
  svm_fifo_unset_event :: "ptr \<Rightarrow> 'w \<Rightarrow> 'w"
  svm_fifo_set_event :: "ptr \<Rightarrow> 'w \<Rightarrow> bool \<times> 'w"
  svm_fifo_dequeue_nowait :: "ptr \<Rightarrow> u32 \<Rightarrow> 'w \<Rightarrow> int \<times> u8 list \<times> 'w"
  svm_fifo_dequeue_drop :: "ptr \<Rightarrow> int \<Rightarrow> 'w \<Rightarrow> 'w"
  svm_fifo_enqueue_nowait :: "ptr \<Rightarrow> u8 list \<Rightarrow> 'w \<Rightarrow> int \<times> 'w"
  app_recv_dgram_raw :: "ptr \<Rightarrow> u32 \<Rightarrow> transport_endpoint \<Rightarrow> 'w \<Rightarrow> int \<times> u8 list \<times> transport_endpoint \<times> 'w"
  app_recv_stream_raw :: "ptr \<Rightarrow> u32 \<Rightarrow> 'w \<Rightarrow> int \<times> u8 list \<times> 'w"
  app_send :: "app_session \<Rightarrow> u8 list \<Rightarrow> 'w \<Rightarrow> int \<times> 'w"
  app_recv :: "app_session \<Rightarrow> u32 \<Rightarrow> 'w \<Rightarrow> int \<times> u8 list \<times> app_session \<times> 'w"
  app_send_io_evt_to_vpp :: "ptr \<Rightarrow> ptr \<Rightarrow> 'w \<Rightarrow> 'w"
  meter_reading :: "'w \<Rightarrow> nat \<times> reading \<times> 'w"
  time_to_stop_now :: "'w \<Rightarrow> bool"
  received :: "'w \<Rightarrow> u8 list"
  sent :: "'w \<Rightarrow> u8 list"
  readable :: "ptr \<Rightarrow> 'w \<Rightarrow> nat"

definition vec_validate :: "nat \<Rightarrow> u8 list \<Rightarrow> u8 list" where
  "vec_validate i v = v @ replicate (Suc i - length v) 0"

section \<open>The server's echo\<close>

text \<open>The inner loop: send what was read, from \<open>offset\<close> on.\<close>

fun echo_send :: "nat \<Rightarrow> 'w fifo_io \<Rightarrow> app_session \<Rightarrow> u8 list \<Rightarrow> nat \<Rightarrow> int \<Rightarrow> 'w \<Rightarrow> (int \<times> 'w) option" where
  "echo_send 0 io session buf offset n_read w = None"
| "echo_send (Suc k) io session buf offset n_read w =
     (if offset + nat n_read > length buf then None
      else
        (case app_send io session (take (nat n_read) (drop offset buf)) w of
           (rv, w) \<Rightarrow>
             (let n_read' = (if rv > 0 then n_read - rv else n_read);
                  offset = (if rv > 0 then offset + nat rv else offset)
              in if (rv \<le> 0 \<or> n_read' > 0) \<and> \<not> time_to_stop_now io w
                 then echo_send k io session buf offset n_read' w
                 else Some (n_read', w))))"

text \<open>What one turn of the outer loop reads: a datagram (which also sets the session's remote
  endpoint) or a stretch of the stream.\<close>

definition rx_read :: "'w fifo_io \<Rightarrow> app_session \<Rightarrow> u32 \<Rightarrow> 'w \<Rightarrow> int \<times> u8 list \<times> app_session \<times> 'w" where
  "rx_read io session max_transfer w =
     (if is_dgram session \<noteq> 0 then
        (case app_recv_dgram_raw io (rx_fifo session) max_transfer (transport session) w of
           (n, bs, t, w) \<Rightarrow> (n, bs, session\<lparr>transport := t\<rparr>, w))
      else
        (case app_recv_stream_raw io (rx_fifo session) max_transfer w of
           (n, bs, w) \<Rightarrow> (n, bs, session, w)))"

text \<open>What one turn does with the \<open>n_read\<close> bytes it has read.\<close>

definition rx_reflect ::
    "nat \<Rightarrow> 'w fifo_io \<Rightarrow> bool \<Rightarrow> app_session \<Rightarrow> u8 list \<Rightarrow> int \<Rightarrow> 'w \<Rightarrow> (int \<times> 'w) option" where
  "rx_reflect k io ret session buf n_read w =
     (if ret \<and> n_read > 0 then
        (case echo_send k io session buf 0 n_read w of
           None \<Rightarrow> None
         | Some (n_read, w) \<Rightarrow>
             (case svm_fifo_set_event io (tx_fifo session) w of
                (b, w) \<Rightarrow>
                  Some (n_read, if b then app_send_io_evt_to_vpp io (vpp_evt_q session) (tx_fifo session) w
                                else w)))
      else Some (n_read, w))"

record 'w rx_state =
  rx_session :: app_session
  rx_left :: u32
  rx_bytes :: "u8 list"
  rx_meter :: meter
  rx_world :: 'w

definition rx_turn :: "nat \<Rightarrow> 'w fifo_io \<Rightarrow> bool \<Rightarrow> 'w rx_state \<Rightarrow> (int \<times> 'w rx_state) option" where
  "rx_turn k io ret s =
     (let max_transfer = min (of_nat (length (rx_bytes s))) (rx_left s)
      in case rx_read io (rx_session s) max_transfer (rx_world s) of
           (n_read, bs, session, w) \<Rightarrow>
             (case fill bs (rx_bytes s) of
                None \<Rightarrow> None
              | Some buf \<Rightarrow>
                  (case meter_reading io w of
                     (tidx, rd, w) \<Rightarrow>
                       (case RECORD tidx rd (word_of_int n_read) 1 (rx_meter s) of
                          None \<Rightarrow> None
                        | Some (meter, _) \<Rightarrow>
                            (case rx_reflect k io ret session buf n_read w of
                               None \<Rightarrow> None
                             | Some (n, w) \<Rightarrow>
                                 Some (n, \<lparr>rx_session = session,
                                   rx_left = (if n_read > 0 then rx_left s - word_of_int n_read else rx_left s),
                                   rx_bytes = buf, rx_meter = meter, rx_world = w\<rparr>))))))"

fun rx_loop :: "nat \<Rightarrow> 'w fifo_io \<Rightarrow> bool \<Rightarrow> 'w rx_state \<Rightarrow> 'w rx_state option" where
  "rx_loop 0 io ret s = None"
| "rx_loop (Suc k) io ret s =
     (case rx_turn k io ret s of
        None \<Rightarrow> None
      | Some (n_read, s) \<Rightarrow>
          if (n_read < 0 \<or> rx_left s > 0) \<and> \<not> time_to_stop_now io (rx_world s)
          then rx_loop k io ret s
          else Some s)"

definition server_handle_fifo_event_rx ::
    "nat \<Rightarrow> 'p session_pool \<Rightarrow> 'w fifo_io \<Rightarrow> u32 \<Rightarrow> 'p udp_echo_main \<Rightarrow> meter \<Rightarrow> 'w \<Rightarrow>
      ('p udp_echo_main \<times> meter \<times> 'w) option" where
  "server_handle_fifo_event_rx k P io idx utm meter w =
     (let session = pool_elt P (sessions utm) (unat idx);
          max_dequeue = svm_fifo_max_dequeue io (rx_fifo session) w;
          w = svm_fifo_unset_event io (rx_fifo session) w
      in if max_dequeue = 0 then Some (utm, meter, w)
         else
           (case rx_loop k io (have_return utm \<noteq> 0)
                   \<lparr>rx_session = session, rx_left = max_dequeue, rx_bytes = rx_buf utm,
                    rx_meter = meter, rx_world = w\<rparr> of
              None \<Rightarrow> None
            | Some s \<Rightarrow>
                Some ((upd_session P (unat idx) (\<lambda>_. rx_session s) utm)\<lparr>rx_buf := rx_bytes s\<rparr>,
                      rx_meter s, rx_world s)))"

section \<open>The client's test stream\<close>

definition send_test_chunk ::
    "'w fifo_io \<Rightarrow> app_session \<Rightarrow> 'p udp_echo_main \<Rightarrow> 'w \<Rightarrow> ('p udp_echo_main \<times> 'w) option" where
  "send_test_chunk io s utm w =
     (let test_data = connect_test_data utm;
          test_buf_len = of_nat (length test_data) :: u64
      in if test_buf_len = 0 then None
         else
           (let test_buf_offset = bytes_sent utm mod test_buf_len;
                bytes_this_chunk = min (test_buf_len - test_buf_offset) (bytes_to_send utm);
                enq_space = svm_fifo_max_enqueue io (tx_fifo s) w;
                bytes_this_chunk = min bytes_this_chunk (ucast enq_space)
            in case app_send io s (take (unat bytes_this_chunk) (drop (unat test_buf_offset) test_data)) w of
                 (written, w) \<Rightarrow>
                   if written > 0 then
                     Some (utm\<lparr>bytes_to_send := bytes_to_send utm - word_of_int written,
                               bytes_sent := bytes_sent utm + word_of_int written\<rparr>, w)
                   else Some (utm, w)))"

definition recv_test_chunk ::
    "'p session_pool \<Rightarrow> 'w fifo_io \<Rightarrow> nat \<Rightarrow> 'p udp_echo_main \<Rightarrow> 'w \<Rightarrow> ('p udp_echo_main \<times> 'w) option" where
  "recv_test_chunk P io i utm w =
     (case app_recv io (pool_elt P (sessions utm) i) (of_nat (length (rx_buf utm))) w of
        (_, bs, s, w) \<Rightarrow>
          (case fill bs (rx_buf utm) of
             None \<Rightarrow> None
           | Some buf \<Rightarrow> Some ((upd_session P i (\<lambda>_. s) utm)\<lparr>rx_buf := buf\<rparr>, w)))"

text \<open>The loop that sends (and, with \<open>have_return\<close>, receives) until everything is sent.\<close>

fun client_send_loop ::
    "nat \<Rightarrow> 'p session_pool \<Rightarrow> 'w fifo_io \<Rightarrow> nat \<Rightarrow> 'p udp_echo_main \<Rightarrow> 'w \<Rightarrow> ('p udp_echo_main \<times> 'w) option" where
  "client_send_loop 0 P io i utm w = None"
| "client_send_loop (Suc k) P io i utm w =
     (if time_to_stop_now io w \<or> bytes_to_send utm = 0 then Some (utm, w)
      else
        (case send_test_chunk io (pool_elt P (sessions utm) i) utm w of
           None \<Rightarrow> None
         | Some (utm, w) \<Rightarrow>
             (case (if have_return utm \<noteq> 0 then recv_test_chunk P io i utm w else Some (utm, w)) of
                None \<Rightarrow> None
              | Some (utm, w) \<Rightarrow>
                  if time_to_stop_now io w then Some (utm, w)
                  else client_send_loop k P io i utm w)))"

text \<open>The loop that receives for five more seconds.\<close>

fun client_drain_loop ::
    "nat \<Rightarrow> 'p session_pool \<Rightarrow> vpp_env \<Rightarrow> 'w fifo_io \<Rightarrow> nat \<Rightarrow> real \<Rightarrow> 'p udp_echo_main \<Rightarrow> 'w \<Rightarrow>
      ('p udp_echo_main \<times> 'w) option" where
  "client_drain_loop 0 P env io i timeout utm w = None"
| "client_drain_loop (Suc k) P env io i timeout utm w =
     (case read_clock env utm of
        (now, utm) \<Rightarrow>
          if now < timeout then
            (case recv_test_chunk P io i utm w of
               None \<Rightarrow> None
             | Some (utm, w) \<Rightarrow> client_drain_loop k P env io i timeout utm w)
          else Some (utm, w))"

definition client_drain ::
    "nat \<Rightarrow> 'p session_pool \<Rightarrow> vpp_env \<Rightarrow> 'w fifo_io \<Rightarrow> nat \<Rightarrow> 'p udp_echo_main \<Rightarrow> 'w \<Rightarrow>
      ('p udp_echo_main \<times> 'w) option" where
  "client_drain k P env io i utm w =
     (if have_return utm \<noteq> 0 then
        (case read_clock env utm of
           (now, utm) \<Rightarrow> client_drain_loop k P env io i (now + 5) utm w)
      else Some (utm, w))"

definition test_pattern :: "nat \<Rightarrow> u8 list" where
  "test_pattern n = map of_nat [0..<n]"

definition client_send_data ::
    "nat \<Rightarrow> 'p session_pool \<Rightarrow> vpp_env \<Rightarrow> 'w fifo_io \<Rightarrow> u32 \<Rightarrow> 'p udp_echo_main \<Rightarrow> 'w \<Rightarrow>
      ('p udp_echo_main \<times> 'w) option" where
  "client_send_data k P env io idx utm w =
     (let utm = utm\<lparr>connect_test_data := vec_validate (1024 * 1024 - 1) (connect_test_data utm)\<rparr>;
          utm = utm\<lparr>connect_test_data := test_pattern (length (connect_test_data utm))\<rparr>
      in assert_that env (length (connect_test_data utm) > 0)
        (let utm = utm\<lparr>total_to_send := bytes_to_send utm\<rparr>;
             utm = utm\<lparr>rx_buf := vec_validate (length (connect_test_data utm) - 1) (rx_buf utm)\<rparr>;
             (start, utm) = read_clock env utm
         in case client_send_loop k P io (unat idx) utm w of
              None \<Rightarrow> None
            | Some (utm, w) \<Rightarrow>
                (case client_drain k P env io (unat idx) utm w of
                   None \<Rightarrow> None
                 | Some (utm, w) \<Rightarrow>
                     (case read_clock env utm of
                        (end_time, utm) \<Rightarrow>
                          Some (emit (Transfer_report (total_to_send utm) (end_time - start)
                                 (have_return utm \<noteq> 0)) utm, w)))))"

section \<open>The cut-through thread\<close>

text \<open>It reads until something arrives: into the buffer when it reflects, otherwise the data is
  dropped. \<open>actual_transfer\<close> is a signed 32 bit number.\<close>

fun ct_read ::
    "nat \<Rightarrow> 'w fifo_io \<Rightarrow> bool \<Rightarrow> ptr \<Rightarrow> u8 list \<Rightarrow> 'w \<Rightarrow> (int \<times> u8 list \<times> 'w) option" where
  "ct_read 0 io ret rx_f my_copy_buffer w = None"
| "ct_read (Suc k) io ret rx_f my_copy_buffer w =
     (if ret then
        (case svm_fifo_dequeue_nowait io rx_f (of_nat (length my_copy_buffer)) w of
           (actual_transfer, bs, w) \<Rightarrow>
             (case fill bs my_copy_buffer of
                None \<Rightarrow> None
              | Some buf \<Rightarrow>
                  if actual_transfer \<le> 0 then ct_read k io ret rx_f buf w
                  else Some (actual_transfer, buf, w)))
      else
        (let actual_transfer = sint (svm_fifo_max_dequeue io rx_f w);
             w = svm_fifo_dequeue_drop io rx_f actual_transfer w
         in if actual_transfer \<le> 0 then ct_read k io ret rx_f my_copy_buffer w
            else Some (actual_transfer, my_copy_buffer, w)))"

text \<open>It writes back all it read, counting into \<open>server_bytes_sent\<close>.\<close>

fun ct_write ::
    "nat \<Rightarrow> 'w fifo_io \<Rightarrow> ptr \<Rightarrow> u8 list \<Rightarrow> u32 \<Rightarrow> int \<Rightarrow> u64 \<Rightarrow> 'w \<Rightarrow> (u64 \<times> 'w) option" where
  "ct_write 0 io tx_f my_copy_buffer buffer_offset actual_transfer server_bytes_sent w = None"
| "ct_write (Suc k) io tx_f my_copy_buffer buffer_offset actual_transfer server_bytes_sent w =
     (if actual_transfer > 0 then
        (if unat buffer_offset + nat actual_transfer > length my_copy_buffer then None
         else
           (case svm_fifo_enqueue_nowait io tx_f
                   (take (nat actual_transfer) (drop (unat buffer_offset) my_copy_buffer)) w of
              (rv, w) \<Rightarrow>
                if rv > 0 then
                  ct_write k io tx_f my_copy_buffer (buffer_offset + word_of_int rv)
                    (actual_transfer - rv) (server_bytes_sent + word_of_int rv) w
                else ct_write k io tx_f my_copy_buffer buffer_offset actual_transfer server_bytes_sent w))
      else Some (server_bytes_sent, w))"

record ct_counters =
  server_bytes_received :: u64
  server_bytes_sent :: u64

fun ct_loop ::
    "nat \<Rightarrow> 'w fifo_io \<Rightarrow> bool \<Rightarrow> ptr \<Rightarrow> ptr \<Rightarrow> u8 list \<Rightarrow> ct_counters \<Rightarrow> 'w \<Rightarrow>
      (ct_counters \<times> 'w) option" where
  "ct_loop 0 io ret rx_f tx_f my_copy_buffer c w = None"
| "ct_loop (Suc k) io ret rx_f tx_f my_copy_buffer c w =
     (case ct_read k io ret rx_f my_copy_buffer w of
        None \<Rightarrow> None
      | Some (actual_transfer, buf, w) \<Rightarrow>
          (let c = c\<lparr>server_bytes_received := server_bytes_received c + word_of_int actual_transfer\<rparr>
           in case (if ret then ct_write k io tx_f buf 0 actual_transfer (server_bytes_sent c) w
                    else Some (server_bytes_sent c, w)) of
                None \<Rightarrow> None
              | Some (n, w) \<Rightarrow>
                  (let c = c\<lparr>server_bytes_sent := n\<rparr>
                   in if time_to_stop_now io w then Some (c, w)
                      else ct_loop k io ret rx_f tx_f buf c w)))"

text \<open>The thread first spins until there is a cut-through session: from a state without one the
  result is \<open>None\<close>.\<close>

definition cut_through_thread_fn ::
    "nat \<Rightarrow> 'p session_pool \<Rightarrow> 'w fifo_io \<Rightarrow> 'p udp_echo_main \<Rightarrow> ct_counters \<Rightarrow> 'w \<Rightarrow>
      (ct_counters \<times> 'w) option" where
  "cut_through_thread_fn k P io utm c w =
     (if cut_through_session_index utm = - 1 then None
      else
        (let s = pool_elt P (sessions utm) (unat (cut_through_session_index utm))
         in ct_loop k io (have_return utm \<noteq> 0) (rx_fifo s) (tx_fifo s)
              (vec_validate (64 * 1024 - 1) []) c w))"

section \<open>The library's documented behaviour\<close>

text \<open>A receive or a dequeue puts as many bytes in the buffer as it returns, no more than asked
  for, and these are what was received; a send or an enqueue takes a prefix of the data and
  returns its length; an operation that is not a receive (send) leaves what was received (sent)
  alone; the stop flag is never cleared; the thread number fits the meter's table.\<close>

definition recv_law :: "'w fifo_io \<Rightarrow> 'w \<Rightarrow> int \<Rightarrow> u8 list \<Rightarrow> 'w \<Rightarrow> u32 \<Rightarrow> bool" where
  "recv_law io w r bs w' n \<longleftrightarrow>
     length bs = nat r \<and> r \<le> int (unat n) \<and> received io w' = received io w @ bs \<and>
     sent io w' = sent io w \<and> (time_to_stop_now io w \<longrightarrow> time_to_stop_now io w')"

definition send_law :: "'w fifo_io \<Rightarrow> 'w \<Rightarrow> int \<Rightarrow> u8 list \<Rightarrow> 'w \<Rightarrow> bool" where
  "send_law io w r bs w' \<longleftrightarrow>
     r \<le> int (length bs) \<and> sent io w' = sent io w @ take (nat r) bs \<and>
     received io w' = received io w \<and> (time_to_stop_now io w \<longrightarrow> time_to_stop_now io w')"

definition quiet_law :: "'w fifo_io \<Rightarrow> 'w \<Rightarrow> 'w \<Rightarrow> bool" where
  "quiet_law io w w' \<longleftrightarrow>
     received io w' = received io w \<and> sent io w' = sent io w \<and>
     (time_to_stop_now io w \<longrightarrow> time_to_stop_now io w')"

definition io_laws :: "'w fifo_io \<Rightarrow> bool" where
  "io_laws io \<longleftrightarrow>
     (\<forall>f n t w r bs t' w'. app_recv_dgram_raw io f n t w = (r, bs, t', w') \<longrightarrow> recv_law io w r bs w' n) \<and>
     (\<forall>f n w r bs w'. app_recv_stream_raw io f n w = (r, bs, w') \<longrightarrow> recv_law io w r bs w' n) \<and>
     (\<forall>f n w r bs w'. svm_fifo_dequeue_nowait io f n w = (r, bs, w') \<longrightarrow> recv_law io w r bs w' n) \<and>
     (\<forall>s n w r bs s' w'. app_recv io s n w = (r, bs, s', w') \<longrightarrow>
        recv_law io w r bs w' n \<and> tx_fifo s' = tx_fifo s) \<and>
     (\<forall>s bs w r w'. app_send io s bs w = (r, w') \<longrightarrow> send_law io w r bs w') \<and>
     (\<forall>f bs w r w'. svm_fifo_enqueue_nowait io f bs w = (r, w') \<longrightarrow> send_law io w r bs w') \<and>
     (\<forall>f w. quiet_law io w (svm_fifo_unset_event io f w)) \<and>
     (\<forall>f w b w'. svm_fifo_set_event io f w = (b, w') \<longrightarrow> quiet_law io w w') \<and>
     (\<forall>q f w. quiet_law io w (app_send_io_evt_to_vpp io q f w)) \<and>
     (\<forall>w tidx rd w'. meter_reading io w = (tidx, rd, w') \<longrightarrow> tidx < 20 \<and> quiet_law io w w')"

lemma io_lawsD:
  assumes "io_laws io"
  shows "app_recv_dgram_raw io f n t w = (r, bs, t', w') \<Longrightarrow> recv_law io w r bs w' n"
    and "app_recv_stream_raw io f n w = (r, bs, w') \<Longrightarrow> recv_law io w r bs w' n"
    and "svm_fifo_dequeue_nowait io f n w = (r, bs, w') \<Longrightarrow> recv_law io w r bs w' n"
    and "app_recv io s n w = (r, bs, s', w') \<Longrightarrow> recv_law io w r bs w' n \<and> tx_fifo s' = tx_fifo s"
    and "app_send io s ds w = (r, w') \<Longrightarrow> send_law io w r ds w'"
    and "svm_fifo_enqueue_nowait io f ds w = (r, w') \<Longrightarrow> send_law io w r ds w'"
    and "quiet_law io w (svm_fifo_unset_event io f w)"
    and "svm_fifo_set_event io f w = (b, w') \<Longrightarrow> quiet_law io w w'"
    and "quiet_law io w (app_send_io_evt_to_vpp io q f w)"
    and "meter_reading io w = (tidx, rd, w') \<Longrightarrow> tidx < 20 \<and> quiet_law io w w'"
  using assms unfolding io_laws_def by - (fast+)

section \<open>The echo is exact\<close>

lemma echo_send_exact:
  assumes L: "io_laws io" and "echo_send k io s buf off n w = Some (n', w')" and "n > 0"
  shows "received io w' = received io w \<and> (time_to_stop_now io w \<longrightarrow> time_to_stop_now io w') \<and>
    (\<exists>j \<le> nat n. sent io w' = sent io w @ take j (drop off buf) \<and> n' = n - int j \<and>
       (\<not> time_to_stop_now io w' \<longrightarrow> n' = 0))"
  using assms(2,3)
proof (induction k arbitrary: off n w)
  case (Suc k)
  obtain rv w1 where a: "app_send io s (take (nat n) (drop off buf)) w = (rv, w1)" by fastforce
  note law = io_lawsD(5) [OF L a, unfolded send_law_def]
  from Suc.prems(1) have len: "off + nat n \<le> length buf" by (auto split: if_splits)
  show ?case
  proof (cases "rv > 0")
    case False
    then show ?thesis
      using Suc.prems Suc.IH [of off n w1] a law by (auto simp: Let_def split: if_splits)
  next
    case True
    then have rv: "nat rv \<le> nat n" "rv \<le> n"
      using law len Suc.prems(2) by (auto simp: min_def split: if_splits)
    show ?thesis
    proof (cases "n - rv > 0 \<and> \<not> time_to_stop_now io w1")
      case True
      with Suc.prems a len \<open>rv > 0\<close> have e: "echo_send k io s buf (off + nat rv) (n - rv) w1 = Some (n', w')"
        by (simp add: Let_def)
      from Suc.IH [OF e] True obtain j where j: "received io w' = received io w1"
        "time_to_stop_now io w1 \<longrightarrow> time_to_stop_now io w'" "j \<le> nat (n - rv)"
        "sent io w' = sent io w1 @ take j (drop (off + nat rv) buf)" "n' = n - rv - int j"
        "\<not> time_to_stop_now io w' \<longrightarrow> n' = 0" by auto
      have "sent io w' = sent io w @ take (nat rv + j) (drop off buf)"
        using j(4) law rv by (simp add: take_add min_absorb1 add.commute [of off])
      then show ?thesis using j law rv \<open>rv > 0\<close> by (intro conjI exI [of _ "nat rv + j"]) auto
    next
      case False
      with Suc.prems a len \<open>rv > 0\<close> have "n' = n - rv" "w' = w1"
        by (auto simp: Let_def split: if_splits)
      then show ?thesis using law rv False \<open>rv > 0\<close>
        by (intro conjI exI [of _ "nat rv"]) (auto simp: min_absorb1)
    qed
  qed
qed simp

lemma quiet_trans: "quiet_law io w1 w2 \<Longrightarrow> quiet_law io w2 w3 \<Longrightarrow> quiet_law io w1 w3"
  by (simp add: quiet_law_def)

text \<open>What happened between two worlds: \<open>d\<close> was received and a prefix of it sent, all of it
  unless the program was told to stop, and even then all but at most \<open>B\<close> bytes.\<close>

definition echoed :: "nat \<Rightarrow> 'w fifo_io \<Rightarrow> bool \<Rightarrow> 'w \<Rightarrow> 'w \<Rightarrow> bool" where
  "echoed B io ret w w' \<longleftrightarrow>
     (\<exists>d j. received io w' = received io w @ d \<and>
        sent io w' = sent io w @ (if ret then take j d else []) \<and>
        (\<not> time_to_stop_now io w' \<longrightarrow> j = length d) \<and> length d \<le> j + B) \<and>
     (time_to_stop_now io w \<longrightarrow> time_to_stop_now io w')"

lemma echoed_trans:
  assumes "echoed B io ret w1 w2" and "echoed B io ret w2 w3" and "\<not> time_to_stop_now io w2"
  shows "echoed B io ret w1 w3"
proof -
  from assms(1,3) obtain d where d: "received io w2 = received io w1 @ d"
    "sent io w2 = sent io w1 @ (if ret then d else [])" by (auto simp: echoed_def)
  from assms(2) obtain e j where e: "received io w3 = received io w2 @ e"
    "sent io w3 = sent io w2 @ (if ret then take j e else [])"
    "\<not> time_to_stop_now io w3 \<longrightarrow> j = length e" "length e \<le> j + B" by (auto simp: echoed_def)
  show ?thesis
    unfolding echoed_def
  proof (intro conjI exI)
    show "received io w3 = received io w1 @ (d @ e)" using d e by simp
    show "sent io w3 = sent io w1 @ (if ret then take (length d + j) (d @ e) else [])"
      using d e by auto
    show "\<not> time_to_stop_now io w3 \<longrightarrow> length d + j = length (d @ e)" using e by simp
    show "length (d @ e) \<le> length d + j + B" using e by simp
    show "time_to_stop_now io w1 \<longrightarrow> time_to_stop_now io w3"
      using assms by (auto simp: echoed_def)
  qed
qed

lemma echoed_quiet:
  "quiet_law io w1 w2 \<Longrightarrow> echoed B io ret w2 w3 \<Longrightarrow> echoed B io ret w1 w3"
  "echoed B io ret w1 w2 \<Longrightarrow> quiet_law io w2 w3 \<Longrightarrow> echoed B io ret w1 w3"
proof -
  show "quiet_law io w1 w2 \<Longrightarrow> echoed B io ret w2 w3 \<Longrightarrow> echoed B io ret w1 w3"
    by (auto simp: echoed_def quiet_law_def)
  assume "echoed B io ret w1 w2" and q: "quiet_law io w2 w3"
  then obtain d j where "received io w2 = received io w1 @ d"
    "sent io w2 = sent io w1 @ (if ret then take j d else [])"
    "\<not> time_to_stop_now io w2 \<longrightarrow> j = length d" "length d \<le> j + B"
    "time_to_stop_now io w1 \<longrightarrow> time_to_stop_now io w2"
    by (auto simp: echoed_def)
  with q show "echoed B io ret w1 w3"
    unfolding echoed_def quiet_law_def by (intro conjI exI [of _ d] exI [of _ j]) auto
qed

lemma echoed_same: "quiet_law io w w' \<Longrightarrow> echoed B io ret w w'"
  unfolding echoed_def quiet_law_def by (intro conjI exI [of _ "[]"] exI [of _ 0]) auto

lemma rx_read_law:
  assumes "io_laws io" and "rx_read io session n w = (r, bs, session', w')"
  shows "recv_law io w r bs w' n" and "tx_fifo session' = tx_fifo session"
    and "rx_fifo session' = rx_fifo session" and "is_dgram session' = is_dgram session"
  using assms io_lawsD(1,2) [OF assms(1)]
  by (fastforce simp: rx_read_def split: if_splits prod.splits)+

lemma rx_reflect_echoed:
  assumes L: "io_laws io" and r: "recv_law io w0 n bs w m"
    and f: "buf = bs @ rest" and B: "length bs \<le> B"
    and e: "rx_reflect k io ret session buf n w = Some (n', w')"
  shows "echoed B io ret w0 w'"
proof (cases "ret \<and> n > 0")
  case False
  then have "ret \<Longrightarrow> bs = []" using r by (auto simp: recv_law_def)
  with e r False show ?thesis
    unfolding echoed_def recv_law_def rx_reflect_def
    by (intro conjI exI [of _ bs] exI [of _ "length bs"]) (auto split: if_splits)
next
  case True
  then obtain w1 where s: "echo_send k io session buf 0 n w = Some (n', w1)" and q: "quiet_law io w1 w'"
    using e io_lawsD(8,9) [OF L] quiet_trans
    by (fastforce simp: rx_reflect_def split: option.splits prod.splits if_splits)
  from echo_send_exact [OF L s] True obtain j where j: "received io w1 = received io w"
    "time_to_stop_now io w \<longrightarrow> time_to_stop_now io w1" "j \<le> nat n"
    "sent io w1 = sent io w @ take j buf" "n' = n - int j" "\<not> time_to_stop_now io w1 \<longrightarrow> n' = 0" by auto
  have "echoed B io ret w0 w1"
    unfolding echoed_def
  proof (intro conjI exI)
    show "received io w1 = received io w0 @ bs" using j r by (simp add: recv_law_def)
    show "sent io w1 = sent io w0 @ (if ret then take j bs else [])"
      using j r f True by (simp add: recv_law_def)
    show "\<not> time_to_stop_now io w1 \<longrightarrow> j = length bs" using j r True by (auto simp: recv_law_def)
    show "length bs \<le> j + B" using B by simp
    show "time_to_stop_now io w0 \<longrightarrow> time_to_stop_now io w1"
      using j r by (simp add: recv_law_def)
  qed
  then show ?thesis using q by (rule echoed_quiet(2))
qed

lemma RECORD_Some:
  "RECORD tidx rd b p m \<noteq> None \<longleftrightarrow> tidx < length (rows m)"
  "RECORD tidx rd b p m = Some (m', rep) \<Longrightarrow> length (rows m') = length (rows m)"
  by (auto simp: RECORD_def split: if_splits prod.splits)

lemma rx_turn_echoed:
  assumes L: "io_laws io" and t: "rx_turn k io ret s = Some (n, s')"
  shows "echoed (length (rx_bytes s)) io ret (rx_world s) (rx_world s')"
    and "length (rx_bytes s') = length (rx_bytes s)"
    and "length (rows (rx_meter s')) = length (rows (rx_meter s))"
proof -
  let ?m = "min (of_nat (length (rx_bytes s))) (rx_left s)"
  obtain r bs session w where rd: "rx_read io (rx_session s) ?m (rx_world s) = (r, bs, session, w)"
    by (metis prod_cases4)
  obtain tidx reading w1 where mr: "meter_reading io w = (tidx, reading, w1)" by (metis prod_cases3)
  from t rd mr obtain buf meter rep w2 where f: "fill bs (rx_bytes s) = Some buf"
    and m: "RECORD tidx reading (word_of_int r) 1 (rx_meter s) = Some (meter, rep)"
    and e: "rx_reflect k io ret session buf r w1 = Some (n, w2)"
    and s': "s' = \<lparr>rx_session = session, rx_left = (if r > 0 then rx_left s - word_of_int r else rx_left s),
       rx_bytes = buf, rx_meter = meter, rx_world = w2\<rparr>"
    by (auto simp: rx_turn_def Let_def split: option.splits prod.splits)
  have "recv_law io (rx_world s) r bs w1 ?m"
    using rx_read_law(1) [OF L rd] io_lawsD(10) [OF L mr] by (auto simp: recv_law_def quiet_law_def)
  with f e show "echoed (length (rx_bytes s)) io ret (rx_world s) (rx_world s')"
    using rx_reflect_echoed [OF L] by (auto simp: s' fill_Some)
  show "length (rx_bytes s') = length (rx_bytes s)" using f by (auto simp: s' fill_Some)
  show "length (rows (rx_meter s')) = length (rows (rx_meter s))"
    using RECORD_Some(2) [OF m] by (simp add: s')
qed

lemma rx_loop_echoed:
  assumes L: "io_laws io"
  shows "rx_loop k io ret s = Some s' \<Longrightarrow>
    echoed (length (rx_bytes s)) io ret (rx_world s) (rx_world s') \<and> length (rx_bytes s') = length (rx_bytes s)"
proof (induction k arbitrary: s)
  case (Suc k)
  then obtain n s1 where t: "rx_turn k io ret s = Some (n, s1)" by (auto split: option.splits)
  note e = rx_turn_echoed(1,2) [OF L t]
  show ?case
  proof (cases "(n < 0 \<or> rx_left s1 > 0) \<and> \<not> time_to_stop_now io (rx_world s1)")
    case True
    with Suc.prems t have "rx_loop k io ret s1 = Some s'" by simp
    from Suc.IH [OF this] e True show ?thesis using echoed_trans [OF e(1)] by simp
  next
    case False
    with Suc.prems t have "s' = s1" by (simp split: if_splits)
    with e show ?thesis by simp
  qed
qed simp

lemma rx_handler_echoed:
  assumes L: "io_laws io" and h: "server_handle_fifo_event_rx k P io idx m meter w = Some (m', meter', w')"
  shows "echoed (length (rx_buf m)) io (have_return m \<noteq> 0) w w'"
    and "length (rx_buf m') = length (rx_buf m)"
proof -
  let ?f = "rx_fifo (pool_elt P (sessions m) (unat idx))"
  note q = io_lawsD(7) [OF L, of w ?f]
  have "echoed (length (rx_buf m)) io (have_return m \<noteq> 0) w w' \<and> length (rx_buf m') = length (rx_buf m)"
  proof (cases "svm_fifo_max_dequeue io ?f w = 0")
    case True
    with h echoed_same [OF q] show ?thesis by (auto simp: server_handle_fifo_event_rx_def Let_def)
  next
    case False
    with h obtain s s' where l: "rx_loop k io (have_return m \<noteq> 0) s = Some s'"
      and w: "rx_world s = svm_fifo_unset_event io ?f w" "rx_world s' = w'" "rx_bytes s = rx_buf m"
        "rx_buf m' = rx_bytes s'"
      by (fastforce simp: server_handle_fifo_event_rx_def Let_def split: option.splits)
    have "echoed (length (rx_buf m)) io (have_return m \<noteq> 0) (svm_fifo_unset_event io ?f w) w'"
      using rx_loop_echoed [OF L l] w by simp
    then show ?thesis using echoed_quiet(1) [OF q] rx_loop_echoed [OF L l] w by simp
  qed
  then show "echoed (length (rx_buf m)) io (have_return m \<noteq> 0) w w'"
    "length (rx_buf m') = length (rx_buf m)" by simp_all
qed

text \<open>C4: the echo server sends back exactly what it receives. Whenever the receive handler
  returns, the bytes \<open>d\<close> it took from the fifo have been sent back in the same order, nothing
  else was sent, and nothing is missing unless the program was told to stop, which cuts off at most
  the last buffer; a server that does not reflect sends nothing.\<close>

theorem echo_exact:
  assumes "io_laws io" and "server_handle_fifo_event_rx k P io idx m meter w = Some (m', meter', w')"
  shows "\<exists>d j. received io w' = received io w @ d \<and>
     sent io w' = sent io w @ (if have_return m \<noteq> 0 then take j d else []) \<and>
     (\<not> time_to_stop_now io w' \<longrightarrow> j = length d) \<and> length d \<le> j + length (rx_buf m)"
  using rx_handler_echoed(1) [OF assms] by (simp add: echoed_def)

text \<open>A concrete network: bytes still to come, received and sent; it delivers three bytes at a
  time and accepts two.\<close>

type_synonym demo_net = "u8 list \<times> u8 list \<times> u8 list"

definition demo_take :: "nat \<Rightarrow> demo_net \<Rightarrow> int \<times> u8 list \<times> demo_net" where
  "demo_take n w =
     (case w of (p, r, t) \<Rightarrow>
        (let k = min n (min 3 (length p)) in (int k, take k p, (drop k p, r @ take k p, t))))"

definition demo_give :: "u8 list \<Rightarrow> demo_net \<Rightarrow> int \<times> demo_net" where
  "demo_give bs w =
     (case w of (p, r, t) \<Rightarrow> (let k = min 2 (length bs) in (int k, (p, r, t @ take k bs))))"

definition demo_io :: "demo_net fifo_io" where
  "demo_io =
     \<lparr>svm_fifo_max_dequeue = (\<lambda>f (p, r, t). if length p < 2 ^ 31 then of_nat (length p) else 0),
      svm_fifo_max_enqueue = (\<lambda>f w. 100),
      svm_fifo_unset_event = (\<lambda>f w. w),
      svm_fifo_set_event = (\<lambda>f w. (True, w)),
      svm_fifo_dequeue_nowait = (\<lambda>f n. demo_take (unat n)),
      svm_fifo_dequeue_drop = (\<lambda>f n w. snd (snd (demo_take (nat n) w))),
      svm_fifo_enqueue_nowait = (\<lambda>f. demo_give),
      app_recv_dgram_raw = (\<lambda>f n t w. case demo_take (unat n) w of (r, bs, w) \<Rightarrow> (r, bs, t, w)),
      app_recv_stream_raw = (\<lambda>f n. demo_take (unat n)),
      app_send = (\<lambda>s. demo_give),
      app_recv = (\<lambda>s n w. case demo_take (unat n) w of (r, bs, w) \<Rightarrow> (r, bs, s, w)),
      app_send_io_evt_to_vpp = (\<lambda>q f w. w),
      meter_reading = (\<lambda>w. (0, \<lparr>now1 = 0, now2 = 0, os_freq = 1\<rparr>, w)),
      time_to_stop_now = (\<lambda>w. False),
      received = (\<lambda>(p, r, t). r), sent = (\<lambda>(p, r, t). t), readable = (\<lambda>f (p, r, t). length p)\<rparr>"

lemma int_min_uint: "int (min (unat n) k) \<le> uint n"
  by (simp add: of_nat_min)

lemma demo_io_laws: "io_laws demo_io"
  unfolding io_laws_def recv_law_def send_law_def quiet_law_def demo_io_def
  by (auto simp: demo_take_def demo_give_def int_min_uint Let_def simp del: of_nat_min split: prod.splits)

definition demo_server :: "demo_slots udp_echo_main" where
  "demo_server = udp_echo_main_zero [(True, zero_session)]\<lparr>rx_buf := replicate 16 0, have_return := 1\<rparr>"

section \<open>The echo comes to an end\<close>

text \<open>A fifo is read by this thread only, so it holds what it reported until that is read, and
  reading from a stream that holds something yields something; a waiting send of something
  sends something.\<close>

definition stream_laws :: "'w fifo_io \<Rightarrow> bool" where
  "stream_laws io \<longleftrightarrow>
     (\<forall>f w. unat (svm_fifo_max_dequeue io f w) \<le> readable io f w) \<and>
     (\<forall>f n w r bs w'. app_recv_stream_raw io f n w = (r, bs, w') \<longrightarrow>
        (n > 0 \<and> readable io f w > 0 \<longrightarrow> r > 0) \<and> readable io f w \<le> readable io f w' + nat r) \<and>
     (\<forall>s bs w r w' f. app_send io s bs w = (r, w') \<longrightarrow>
        (bs \<noteq> [] \<longrightarrow> r > 0) \<and> readable io f w \<le> readable io f w') \<and>
     (\<forall>f w g. readable io f w \<le> readable io f (svm_fifo_unset_event io g w)) \<and>
     (\<forall>f w g b w'. svm_fifo_set_event io g w = (b, w') \<longrightarrow> readable io f w \<le> readable io f w') \<and>
     (\<forall>q f g w. readable io f w \<le> readable io f (app_send_io_evt_to_vpp io q g w)) \<and>
     (\<forall>w f tidx rd w'. meter_reading io w = (tidx, rd, w') \<longrightarrow> readable io f w \<le> readable io f w')"

lemma stream_lawsD:
  assumes "stream_laws io"
  shows "unat (svm_fifo_max_dequeue io f w) \<le> readable io f w"
    and "app_recv_stream_raw io f n w = (r, bs, w') \<Longrightarrow>
           (n > 0 \<and> readable io f w > 0 \<longrightarrow> r > 0) \<and> readable io f w \<le> readable io f w' + nat r"
    and "app_send io s ds w = (r, w') \<Longrightarrow>
           (ds \<noteq> [] \<longrightarrow> r > 0) \<and> readable io f w \<le> readable io f w'"
    and "readable io f w \<le> readable io f (svm_fifo_unset_event io g w)"
    and "svm_fifo_set_event io g w = (b, w') \<Longrightarrow> readable io f w \<le> readable io f w'"
    and "readable io f w \<le> readable io f (app_send_io_evt_to_vpp io q g w)"
    and "meter_reading io w = (tidx, rd, w') \<Longrightarrow> readable io f w \<le> readable io f w'"
  using assms unfolding stream_laws_def by - (fast+)

lemma echo_send_total:
  assumes L: "io_laws io" and S: "stream_laws io"
  shows "0 < n \<Longrightarrow> nat n \<le> k \<Longrightarrow> off + nat n \<le> length buf \<Longrightarrow>
    \<exists>n' w'. echo_send k io s buf off n w = Some (n', w') \<and> readable io f w \<le> readable io f w'"
proof (induction k arbitrary: off n w)
  case (Suc k)
  obtain rv w1 where a: "app_send io s (take (nat n) (drop off buf)) w = (rv, w1)" by fastforce
  have rv: "0 < rv" "rv \<le> n" and r1: "readable io f w \<le> readable io f w1"
    using io_lawsD(5) [OF L a] stream_lawsD(3) [OF S a] Suc.prems
    by (auto simp: send_law_def min_def split: if_splits)
  show ?case
  proof (cases "n - rv > 0 \<and> \<not> time_to_stop_now io w1")
    case True
    with Suc.prems rv have p: "0 < n - rv" "nat (n - rv) \<le> k" "off + nat rv + nat (n - rv) \<le> length buf"
      by auto
    from Suc.IH [OF p, of w1] True a Suc.prems rv r1 show ?thesis by (auto simp: Let_def)
  next
    case False
    with a Suc.prems rv r1 show ?thesis by (auto simp: Let_def)
  qed
qed simp

text \<open>The state the loop works on: a stream that holds what is left, a buffer, a full meter.\<close>

definition rx_ready :: "'w fifo_io \<Rightarrow> 'w rx_state \<Rightarrow> bool" where
  "rx_ready io s \<longleftrightarrow>
     is_dgram (rx_session s) = 0 \<and> 0 < length (rx_bytes s) \<and> length (rx_bytes s) < 2 ^ 31 \<and>
     length (rows (rx_meter s)) = 20 \<and> unat (rx_left s) \<le> readable io (rx_fifo (rx_session s)) (rx_world s)"

lemma rx_reflect_total:
  assumes L: "io_laws io" and S: "stream_laws io" and n: "0 < n" "nat n \<le> k" "nat n \<le> length buf"
  shows "\<exists>n' w'. rx_reflect k io ret session buf n w = Some (n', w') \<and> 0 \<le> n' \<and>
    readable io f w \<le> readable io f w'"
proof (cases ret)
  case True
  obtain n' w1 where e: "echo_send k io session buf 0 n w = Some (n', w1)"
    and r1: "readable io f w \<le> readable io f w1"
    using echo_send_total [OF L S n(1,2), of 0 buf session w f] n(3) by auto
  have "0 \<le> n'" using echo_send_exact [OF L e n(1)] n(1) by auto
  obtain b w2 where b: "svm_fifo_set_event io (tx_fifo session) w1 = (b, w2)" by fastforce
  have "readable io f w \<le> readable io f w2" using r1 stream_lawsD(5) [OF S b, of f] by simp
  moreover have "readable io f w2 \<le> readable io f (if b
      then app_send_io_evt_to_vpp io (vpp_evt_q session) (tx_fifo session) w2 else w2)"
    by (simp add: stream_lawsD(6) [OF S])
  ultimately have "readable io f w \<le> readable io f (if b
      then app_send_io_evt_to_vpp io (vpp_evt_q session) (tx_fifo session) w2 else w2)"
    by linarith
  then show ?thesis using True n(1) e b \<open>0 \<le> n'\<close> by (simp add: rx_reflect_def)
qed (use n in \<open>simp add: rx_reflect_def\<close>)

lemma rx_turn_total:
  assumes L: "io_laws io" and S: "stream_laws io" and R: "rx_ready io s"
    and k: "unat (rx_left s) \<le> k" and left: "rx_left s > 0"
  shows "\<exists>n s'. rx_turn k io ret s = Some (n, s') \<and> 0 \<le> n \<and> rx_ready io s' \<and>
    unat (rx_left s') < unat (rx_left s)"
proof -
  let ?f = "rx_fifo (rx_session s)" and ?b = "rx_bytes s"
  let ?m = "min (of_nat (length ?b)) (rx_left s)"
  note R' = R [unfolded rx_ready_def]
  have b: "unat (of_nat (length ?b) :: u32) = length ?b"
    using R' by (simp add: unsigned_of_nat take_bit_nat_eq_self)
  have m: "unat ?m \<le> length ?b" "unat ?m \<le> unat (rx_left s)" "?m > 0"
    using R' left by (simp_all add: unat_min_word b word_less_nat_alt)
  have avail: "readable io ?f (rx_world s) > 0"
    using R' left by (simp add: word_less_nat_alt)
  obtain r bs w1 where rd: "app_recv_stream_raw io ?f ?m (rx_world s) = (r, bs, w1)" by (metis prod_cases3)
  note law = io_lawsD(2) [OF L rd, unfolded recv_law_def]
  have r: "0 < r" "length bs = nat r"
    and r1: "unat (rx_left s) \<le> readable io ?f w1 + nat r"
    using law stream_lawsD(2) [OF S rd] m(3) avail R' by auto
  have rm: "nat r \<le> unat ?m" using law r(1) by linarith
  obtain tidx rdg w2 where mr: "meter_reading io w1 = (tidx, rdg, w2)" by (metis prod_cases3)
  have "RECORD tidx rdg (word_of_int r) 1 (rx_meter s) \<noteq> None"
    using io_lawsD(10) [OF L mr] R' RECORD_Some(1) by auto
  then obtain meter rep where rec: "RECORD tidx rdg (word_of_int r) 1 (rx_meter s) = Some (meter, rep)"
    by auto
  let ?b' = "bs @ drop (length bs) ?b"
  have "nat r \<le> k" "nat r \<le> length ?b'" using r rm m k by auto
  from rx_reflect_total [OF L S r(1) this, of ret "rx_session s" w2 ?f]
  obtain n w3 where refl: "rx_reflect k io ret (rx_session s) ?b' r w2 = Some (n, w3)" "0 \<le> n"
    and r3: "readable io ?f w2 \<le> readable io ?f w3" by blast
  let ?s = "\<lparr>rx_session = rx_session s, rx_left = rx_left s - word_of_int r, rx_bytes = ?b',
    rx_meter = meter, rx_world = w3\<rparr>"
  have t: "rx_turn k io ret s = Some (n, ?s)"
    using rd R' mr rec refl r rm m by (simp add: rx_turn_def rx_read_def fill_def Let_def)
  have w: "(word_of_int r :: u32) = of_nat (nat r)" using r(1) by simp
  have "unat (rx_left s) < 2 ^ LENGTH(32)" by (rule unsigned_less)
  then have small: "unat (of_nat (nat r) :: u32) = nat r"
    using rm m(2) by (simp add: unsigned_of_nat take_bit_nat_eq_self)
  have left': "unat (rx_left s - word_of_int r) = unat (rx_left s) - nat r"
    unfolding w using rm m(2) small by (subst unat_sub) (simp_all add: word_le_nat_alt)
  have "rx_ready io ?s"
    using R' r rm r1 r3 m stream_lawsD(7) [OF S mr, of ?f] RECORD_Some(2) [OF rec]
    by (simp add: rx_ready_def left')
  moreover have "unat (rx_left ?s) < unat (rx_left s)" using left' r rm left m(2) by simp
  ultimately show ?thesis using t refl(2) by blast
qed

lemma rx_loop_total:
  assumes L: "io_laws io" and S: "stream_laws io"
  shows "rx_ready io s \<Longrightarrow> unat (rx_left s) < k \<Longrightarrow> rx_left s > 0 \<Longrightarrow> rx_loop k io ret s \<noteq> None"
proof (induction k arbitrary: s)
  case (Suc k)
  then obtain n s' where t: "rx_turn k io ret s = Some (n, s')" "0 \<le> n" "rx_ready io s'"
    "unat (rx_left s') < unat (rx_left s)"
    using rx_turn_total [OF L S Suc.prems(1), of k ret] by fastforce
  from Suc.IH [OF t(3)] t Suc.prems show ?case by simp
qed simp

lemma rx_handler_total:
  assumes "io_laws io" and "stream_laws io"
    and "is_dgram (pool_elt P (sessions m) (unat idx)) = 0"
    and "0 < length (rx_buf m)" and "length (rx_buf m) < 2 ^ 31" and "length (rows meter) = 20"
    and "unat (svm_fifo_max_dequeue io (rx_fifo (pool_elt P (sessions m) (unat idx))) w) < k"
  shows "server_handle_fifo_event_rx k P io idx m meter w \<noteq> None"
proof -
  let ?s = "pool_elt P (sessions m) (unat idx)"
  let ?w = "svm_fifo_unset_event io (rx_fifo ?s) w"
  let ?n = "svm_fifo_max_dequeue io (rx_fifo ?s) w"
  let ?r = "\<lparr>rx_session = ?s, rx_left = ?n, rx_bytes = rx_buf m, rx_meter = meter, rx_world = ?w\<rparr>"
  have "unat ?n \<le> readable io (rx_fifo ?s) ?w"
    using stream_lawsD(1,4) [OF assms(2)] le_trans by blast
  then have "rx_ready io ?r" using assms by (simp add: rx_ready_def)
  then have "?n > 0 \<Longrightarrow> rx_loop k io (have_return m \<noteq> 0) ?r \<noteq> None"
    using rx_loop_total [OF assms(1,2), of ?r k] assms(7) by simp
  then show ?thesis
    by (auto simp: server_handle_fifo_event_rx_def Let_def word_neq_0_conv split: option.splits)
qed


lemma demo_stream_laws: "stream_laws demo_io"
  unfolding stream_laws_def demo_io_def
  by (auto simp: demo_take_def demo_give_def Let_def word_less_nat_alt unsigned_of_nat take_bit_nat_eq_self
      split: prod.splits)


lemma demo_server_returns:
  obtains m' meter' w' where "server_handle_fifo_event_rx 6 demo_pool demo_io 0 demo_server meter0
    ([5, 6, 7, 8, 9], [], []) = Some (m', meter', w')"
proof -
  have "server_handle_fifo_event_rx 6 demo_pool demo_io 0 demo_server meter0 ([5, 6, 7, 8, 9], [], []) \<noteq> None"
    by (rule rx_handler_total [OF demo_io_laws demo_stream_laws])
      (simp_all add: demo_server_def udp_echo_main_zero_def demo_pool_def zero_session_def meter0_def demo_io_def)
  then show ?thesis using that by auto
qed

theorem echo_exact_witness:
  "\<exists>m' meter' w'. server_handle_fifo_event_rx 6 demo_pool demo_io 0 demo_server meter0
       ([5, 6, 7, 8, 9], [], []) = Some (m', meter', w') \<and> sent demo_io w' = received demo_io w'"
proof -
  obtain m' meter' w' where r: "server_handle_fifo_event_rx 6 demo_pool demo_io 0 demo_server meter0
      ([5, 6, 7, 8, 9], [], []) = Some (m', meter', w')" by (rule demo_server_returns)
  have "sent demo_io w' = received demo_io w'"
    using echo_exact [OF demo_io_laws r] by (auto simp: demo_server_def demo_io_def)
  then show ?thesis using r by blast
qed

section \<open>The client's stream\<close>

lemma upd_session_client [simp]:
  "bytes_to_send (upd_session P i f m) = bytes_to_send m"
  "bytes_sent (upd_session P i f m) = bytes_sent m"
  "connect_test_data (upd_session P i f m) = connect_test_data m"
  "have_return (upd_session P i f m) = have_return m"
  "total_to_send (upd_session P i f m) = total_to_send m"
  "clock_reads (upd_session P i f m) = clock_reads m"
  "rx_buf (upd_session P i f m) = rx_buf m"
  by (simp_all add: upd_session_def)

text \<open>The fields of the transfer.\<close>

definition same_transfer :: "'p udp_echo_main \<Rightarrow> 'p udp_echo_main \<Rightarrow> bool" where
  "same_transfer m m' \<longleftrightarrow>
     bytes_to_send m' = bytes_to_send m \<and> bytes_sent m' = bytes_sent m \<and>
     connect_test_data m' = connect_test_data m \<and> have_return m' = have_return m \<and>
     length (rx_buf m') = length (rx_buf m)"

lemma recv_chunk_effect:
  assumes "io_laws io" and "recv_test_chunk P io i m w = Some (m', w')"
  shows "same_transfer m m'" and "sent io w' = sent io w"
    and "time_to_stop_now io w \<longrightarrow> time_to_stop_now io w'" and "clock_reads m' = clock_reads m"
  using assms(2) io_lawsD(4) [OF assms(1)]
  by (auto simp: recv_test_chunk_def same_transfer_def recv_law_def fill_Some split: prod.splits option.splits)

lemma test_pattern_nth: "i < n \<Longrightarrow> test_pattern n ! i = of_nat i"
  by (simp add: test_pattern_def)

lemma test_pattern_length [simp]: "length (test_pattern n) = n"
  by (simp add: test_pattern_def)

lemma test_pattern_Nil [simp]: "test_pattern n = [] \<longleftrightarrow> n = 0"
  by (simp add: test_pattern_def)

text \<open>The test data has a length that 256 divides, so reading it round and round goes on with the
  pattern where it stopped.\<close>

lemma test_pattern_extend:
  assumes "256 dvd N" and "b mod N + c \<le> N"
  shows "test_pattern b @ take c (drop (b mod N) (test_pattern N)) = test_pattern (b + c)"
proof (rule nth_equalityI)
  fix i assume "i < length (test_pattern b @ take c (drop (b mod N) (test_pattern N)))"
  then have i: "i < b + c" using assms(2) by (simp add: min_def split: if_splits)
  show "(test_pattern b @ take c (drop (b mod N) (test_pattern N))) ! i = test_pattern (b + c) ! i"
  proof (cases "i < b")
    case False
    then have "(test_pattern b @ take c (drop (b mod N) (test_pattern N))) ! i
        = of_nat (b mod N + (i - b))"
      using assms(2) i by (simp add: nth_append test_pattern_nth)
    also have "(of_nat (b mod N + (i - b)) :: u8) = of_nat i"
      using assms(1) False by (simp add: word_of_nat_eq_iff take_bit_eq_mod mod_mod_cancel)
    finally show ?thesis using i by (simp add: test_pattern_nth)
  qed (use i in \<open>simp add: nth_append test_pattern_nth\<close>)
qed (use assms(2) in auto)

text \<open>What holds between two moments of the transfer: \<open>b\<close> bytes were sent before the first.\<close>

definition transfer_ok :: "'w fifo_io \<Rightarrow> nat \<Rightarrow> u8 list \<Rightarrow> 'p udp_echo_main \<Rightarrow> 'w \<Rightarrow> bool" where
  "transfer_ok io tot before m w \<longleftrightarrow>
     connect_test_data m = test_pattern (2 ^ 20) \<and>
     unat (bytes_sent m) + unat (bytes_to_send m) = tot \<and> tot < 2 ^ 64 \<and>
     sent io w = before @ test_pattern (unat (bytes_sent m))"

lemma transfer_ok_same:
  "transfer_ok io tot before m w \<Longrightarrow> same_transfer m m' \<Longrightarrow> sent io w' = sent io w \<Longrightarrow>
     transfer_ok io tot before m' w'"
  by (simp add: transfer_ok_def same_transfer_def)

text \<open>The size of the next chunk.\<close>

definition chunk_size :: "'w fifo_io \<Rightarrow> app_session \<Rightarrow> 'p udp_echo_main \<Rightarrow> 'w \<Rightarrow> nat" where
  "chunk_size io s m w =
     min (min (2 ^ 20 - unat (bytes_sent m) mod 2 ^ 20) (unat (bytes_to_send m)))
       (unat (svm_fifo_max_enqueue io (tx_fifo s) w))"

lemma send_chunk_shape:
  assumes "connect_test_data m = test_pattern (2 ^ 20)"
  shows "send_test_chunk io s m w =
     (case app_send io s (take (chunk_size io s m w)
             (drop (unat (bytes_sent m) mod 2 ^ 20) (test_pattern (2 ^ 20)))) w of
        (written, w) \<Rightarrow>
          if written > 0 then
            Some (m\<lparr>bytes_to_send := bytes_to_send m - word_of_int written,
                    bytes_sent := bytes_sent m + word_of_int written\<rparr>, w)
          else Some (m, w))"
proof -
  have n: "(of_nat (length (connect_test_data m)) :: u64) = 0x100000" using assms by simp
  have o: "unat (bytes_sent m mod 0x100000) = unat (bytes_sent m) mod 2 ^ 20"
    by (simp add: unat_mod_distrib)
  have "unat (0x100000 - bytes_sent m mod 0x100000) = 2 ^ 20 - unat (bytes_sent m) mod 2 ^ 20"
    by (subst unat_sub) (simp_all add: o word_le_nat_alt less_imp_le)
  then have c: "unat (min (min (0x100000 - bytes_sent m mod 0x100000) (bytes_to_send m))
      (ucast (svm_fifo_max_enqueue io (tx_fifo s) w))) = chunk_size io s m w"
    by (simp add: chunk_size_def unat_min_word unat_up_ucast)
  show ?thesis
    unfolding send_test_chunk_def Let_def n using assms by (simp add: c o)
qed

lemma send_chunk_ok:
  assumes L: "io_laws io" and T: "transfer_ok io tot before m w"
    and c: "send_test_chunk io s m w = Some (m', w')"
  shows "transfer_ok io tot before m' w'" and "have_return m' = have_return m"
    and "clock_reads m' = clock_reads m" and "rx_buf m' = rx_buf m"
    and "time_to_stop_now io w \<longrightarrow> time_to_stop_now io w'"
    and "sessions m' = sessions m"
proof -
  note T' = T [unfolded transfer_ok_def]
  let ?n = "chunk_size io s m w" and ?o = "unat (bytes_sent m) mod 2 ^ 20"
  let ?d = "take ?n (drop ?o (test_pattern (2 ^ 20)))"
  obtain r w1 where a: "app_send io s ?d w = (r, w1)" by fastforce
  note law = io_lawsD(5) [OF L a, unfolded send_law_def]
  note shape = c [unfolded send_chunk_shape [OF T' [THEN conjunct1]] a prod.case]
  show "have_return m' = have_return m" "clock_reads m' = clock_reads m" "rx_buf m' = rx_buf m"
    "time_to_stop_now io w \<longrightarrow> time_to_stop_now io w'" "sessions m' = sessions m"
    using shape law by (auto split: if_splits)
  show "transfer_ok io tot before m' w'"
  proof (cases "r > 0")
    case False
    with shape law T' show ?thesis by (simp add: transfer_ok_def)
  next
    case True
    have "length ?d \<le> ?n" by simp
    with law True have r: "nat r \<le> ?n" by linarith
    have n: "?o + ?n \<le> 2 ^ 20" "?n \<le> unat (bytes_to_send m)" by (auto simp: chunk_size_def)
    have w: "(word_of_int r :: u64) = of_nat (nat r)" using True by simp
    have small: "unat (of_nat (nat r) :: u64) = nat r"
      using r n(1) by (simp add: unsigned_of_nat take_bit_nat_eq_self)
    have s1: "unat (bytes_to_send m - of_nat (nat r)) = unat (bytes_to_send m) - nat r"
      using r n(2) small by (subst unat_sub) (simp_all add: word_le_nat_alt)
    have s2: "unat (bytes_sent m + of_nat (nat r)) = unat (bytes_sent m) + nat r"
      using T' r n(2) small by (subst unat_add_lem [THEN iffD1]) auto
    have d: "take (nat r) ?d = take (nat r) (drop ?o (test_pattern (2 ^ 20)))"
      by (simp only: take_take min_absorb1 [OF r])
    have e: "test_pattern (unat (bytes_sent m)) @ take (nat r) (drop ?o (test_pattern (2 ^ 20)))
        = test_pattern (unat (bytes_sent m) + nat r)"
      by (rule test_pattern_extend) (use r n in auto)
    have l: "sent io w1 = sent io w @ take (nat r) ?d" using law by (elim conjE)
    have t: "sent io w = before @ test_pattern (unat (bytes_sent m))" using T' by (elim conjE)
    have "sent io w1 = before @ test_pattern (unat (bytes_sent m) + nat r)"
      by (simp only: l t d e append_assoc)
    moreover have "m' = m\<lparr>bytes_to_send := bytes_to_send m - word_of_int r,
        bytes_sent := bytes_sent m + word_of_int r\<rparr>" "w' = w1"
      using shape True by auto
    moreover have "nat r \<le> unat (bytes_to_send m)" using r n(2) by simp
    ultimately show ?thesis
      unfolding transfer_ok_def using T' s1 s2 unfolding w [symmetric] by simp
  qed
qed

lemma client_send_loop_ok:
  assumes L: "io_laws io"
  shows "transfer_ok io tot before m w \<Longrightarrow> client_send_loop k P io i m w = Some (m', w') \<Longrightarrow>
    transfer_ok io tot before m' w' \<and> have_return m' = have_return m \<and>
    (time_to_stop_now io w' \<or> bytes_to_send m' = 0)"
proof (induction k arbitrary: m w)
  case (Suc k)
  show ?case
  proof (cases "time_to_stop_now io w \<or> bytes_to_send m = 0")
    case True
    with Suc.prems show ?thesis by auto
  next
    case False
    with Suc.prems(2) obtain m1 w1 where c: "send_test_chunk io (pool_elt P (sessions m) i) m w = Some (m1, w1)"
      by (auto split: option.splits)
    note ok1 = send_chunk_ok [OF L Suc.prems(1) c]
    from Suc.prems(2) False c obtain m2 w2 where
      r: "(if have_return m1 \<noteq> 0 then recv_test_chunk P io i m1 w1 else Some (m1, w1)) = Some (m2, w2)"
      by (auto split: option.splits)
    have ok2: "transfer_ok io tot before m2 w2" "have_return m2 = have_return m1"
      using r ok1(1) recv_chunk_effect [OF L] transfer_ok_same
      by (fastforce simp: same_transfer_def split: if_splits)+
    show ?thesis
    proof (cases "time_to_stop_now io w2")
      case True
      with Suc.prems(2) False c r have "m' = m2" "w' = w2" by simp_all
      with ok2 ok1(2) True show ?thesis by simp
    next
      case stay: False
      with Suc.prems(2) False c r have "client_send_loop k P io i m2 w2 = Some (m', w')" by simp
      from Suc.IH [OF ok2(1) this] ok2(2) ok1(2) show ?thesis by simp
    qed
  qed
qed simp

lemma client_drain_loop_ok:
  assumes L: "io_laws io"
  shows "client_drain_loop k P env io i t m w = Some (m', w') \<Longrightarrow>
    same_transfer m m' \<and> sent io w' = sent io w \<and> (time_to_stop_now io w \<longrightarrow> time_to_stop_now io w')"
proof (induction k arbitrary: m w)
  case (Suc k)
  obtain now m1 where c: "read_clock env m = (now, m1)" by fastforce
  then have s: "same_transfer m m1" by (auto simp: read_clock_def same_transfer_def)
  show ?case
  proof (cases "now < t")
    case False
    with Suc.prems c s show ?thesis by auto
  next
    case True
    with Suc.prems c obtain m2 w2 where r: "recv_test_chunk P io i m1 w = Some (m2, w2)"
      and l: "client_drain_loop k P env io i t m2 w2 = Some (m', w')"
      by (auto split: option.splits)
    from Suc.IH [OF l] recv_chunk_effect [OF L r] s show ?thesis by (auto simp: same_transfer_def)
  qed
qed simp

lemma client_drain_ok:
  assumes L: "io_laws io" and "client_drain k P env io i m w = Some (m', w')"
  shows "same_transfer m m' \<and> sent io w' = sent io w \<and> (time_to_stop_now io w \<longrightarrow> time_to_stop_now io w')"
proof (cases "have_return m = 0")
  case True
  with assms(2) show ?thesis by (simp add: client_drain_def same_transfer_def)
next
  case False
  obtain now m1 where c: "read_clock env m = (now, m1)" by fastforce
  then have s: "same_transfer m m1" by (auto simp: read_clock_def same_transfer_def)
  from assms(2) False c have "client_drain_loop k P env io i (now + 5) m1 w = Some (m', w')"
    by (simp add: client_drain_def)
  from client_drain_loop_ok [OF L this] s show ?thesis by (auto simp: same_transfer_def)
qed

text \<open>The state in which the transfer loop starts.\<close>

definition client_ready :: "vpp_env \<Rightarrow> 'p udp_echo_main \<Rightarrow> 'p udp_echo_main" where
  "client_ready env m =
     snd (read_clock env (m\<lparr>connect_test_data := test_pattern (2 ^ 20), total_to_send := bytes_to_send m,
       rx_buf := vec_validate (2 ^ 20 - 1) (rx_buf m)\<rparr>))"

lemma vec_validate_length: "length (vec_validate n v) = max (Suc n) (length v)"
  by (simp add: vec_validate_def)

lemma vec_validate_Nil [simp]: "vec_validate n v \<noteq> []"
  using vec_validate_length [of n v] by (cases "vec_validate n v") auto

lemma client_send_data_shape:
  assumes "length (connect_test_data m) \<le> 2 ^ 20"
  shows "client_send_data k P env io idx m w =
     (case client_send_loop k P io (unat idx) (client_ready env m) w of
        None \<Rightarrow> None
      | Some (m1, w1) \<Rightarrow>
          (case client_drain k P env io (unat idx) m1 w1 of
             None \<Rightarrow> None
           | Some (m2, w2) \<Rightarrow>
               (case read_clock env m2 of
                  (end_time, m3) \<Rightarrow>
                    Some (emit (Transfer_report (total_to_send m3)
                           (end_time - clib_time_now env (clock_reads m)) (have_return m3 \<noteq> 0)) m3, w2))))"
proof -
  have "length (vec_validate (1024 * 1024 - 1) (connect_test_data m)) = 2 ^ 20"
    using assms by (simp add: vec_validate_length)
  then show ?thesis
    by (simp add: client_send_data_def client_ready_def read_clock_def assert_that_def Let_def
        split: option.split prod.split)
qed

text \<open>C3: the client sends its test pattern, every byte in its place and none twice. Whatever
  pieces the socket layer takes, what \<open>client_send_data\<close> has sent when it returns is the pattern
  0, 1, ..., 255, 0, 1, ... from its first byte on, sent and remaining bytes add up to what was
  asked for, and nothing remains unless the program was told to stop.\<close>

theorem client_sends_pattern:
  assumes "io_laws io" and "length (connect_test_data m) \<le> 2 ^ 20" and "bytes_sent m = 0"
    and "client_send_data k P env io idx m w = Some (m', w')"
  shows "sent io w' = sent io w @ test_pattern (unat (bytes_sent m')) \<and>
     unat (bytes_sent m') + unat (bytes_to_send m') = unat (bytes_to_send m) \<and>
     (\<not> time_to_stop_now io w' \<longrightarrow> bytes_to_send m' = 0)"
proof -
  have "unat (bytes_to_send m) < 2 ^ LENGTH(64)" by (rule unsigned_less)
  then have T: "transfer_ok io (unat (bytes_to_send m)) (sent io w) (client_ready env m) w"
    using assms(3) by (simp add: transfer_ok_def client_ready_def read_clock_def test_pattern_def)
  from assms(4) obtain m1 w1 m2 where
    l: "client_send_loop k P io (unat idx) (client_ready env m) w = Some (m1, w1)"
    and d: "client_drain k P env io (unat idx) m1 w1 = Some (m2, w')"
    and m': "bytes_sent m' = bytes_sent m2" "bytes_to_send m' = bytes_to_send m2"
    unfolding client_send_data_shape [OF assms(2)]
    by (auto simp: read_clock_def emit_def split: option.splits prod.splits)
  from client_send_loop_ok [OF assms(1) T l] client_drain_ok [OF assms(1) d] m'
  show ?thesis by (auto simp: transfer_ok_def same_transfer_def)
qed

lemma recv_chunk_total: "io_laws io \<Longrightarrow> recv_test_chunk P io i m w \<noteq> None"
proof -
  assume L: "io_laws io"
  obtain r bs s w1 where a: "app_recv io (pool_elt P (sessions m) i) (of_nat (length (rx_buf m))) w = (r, bs, s, w1)"
    by (metis prod_cases4)
  have "length bs \<le> unat (of_nat (length (rx_buf m)) :: u32)"
    using io_lawsD(4) [OF L a] unfolding recv_law_def by linarith
  also have "\<dots> \<le> length (rx_buf m)" by (simp add: unsigned_of_nat take_bit_nat_less_eq_self)
  finally show ?thesis using a by (simp add: recv_test_chunk_def fill_def)
qed

lemma send_chunk_progress:
  assumes L: "io_laws io" and S: "stream_laws io" and T: "transfer_ok io tot before m w"
    and q: "svm_fifo_max_enqueue io (tx_fifo s) w > 0" and b: "bytes_to_send m \<noteq> 0"
  shows "\<exists>m' w'. send_test_chunk io s m w = Some (m', w') \<and> unat (bytes_to_send m') < unat (bytes_to_send m)"
proof -
  let ?n = "chunk_size io s m w" and ?o = "unat (bytes_sent m) mod 2 ^ 20"
  let ?d = "take ?n (drop ?o (test_pattern (2 ^ 20)))"
  obtain r w1 where a: "app_send io s ?d w = (r, w1)" by fastforce
  have o: "?o < 2 ^ 20" by simp
  have bn: "unat (bytes_to_send m) > 0" using b by (simp add: unat_gt_0)
  moreover have "unat (svm_fifo_max_enqueue io (tx_fifo s) w) > 0" using q by (simp add: word_less_nat_alt)
  ultimately have n: "?n > 0" using o by (auto simp: chunk_size_def)
  have ld: "length ?d > 0" using n o by (simp only: length_take length_drop test_pattern_length min_less_iff_conj zero_less_diff)
  have r: "r > 0" using stream_lawsD(3) [OF S a] ld by blast
  have "int (length ?d) \<le> int ?n" by simp
  then have rn: "nat r \<le> ?n" using io_lawsD(5) [OF L a] unfolding send_law_def by linarith
  have nb: "?n \<le> unat (bytes_to_send m)" "?n \<le> 2 ^ 20" by (auto simp: chunk_size_def)
  have w: "(word_of_int r :: u64) = of_nat (nat r)" using r by simp
  have small: "unat (of_nat (nat r) :: u64) = nat r"
    using rn nb by (simp add: unsigned_of_nat take_bit_nat_eq_self)
  have "unat (bytes_to_send m - word_of_int r) = unat (bytes_to_send m) - nat r"
    unfolding w using rn nb small by (subst unat_sub) (simp_all add: word_le_nat_alt)
  moreover have "connect_test_data m = test_pattern (2 ^ 20)" using T unfolding transfer_ok_def by (elim conjE)
  then have "send_test_chunk io s m w = Some (m\<lparr>bytes_to_send := bytes_to_send m - word_of_int r,
      bytes_sent := bytes_sent m + word_of_int r\<rparr>, w1)"
    unfolding send_chunk_shape [OF \<open>connect_test_data m = _\<close>] a using r by simp
  ultimately show ?thesis using r bn by simp
qed

lemma client_send_loop_total:
  assumes L: "io_laws io" and S: "stream_laws io" and q: "\<And>f w. svm_fifo_max_enqueue io f w > 0"
  shows "transfer_ok io tot before m w \<Longrightarrow> unat (bytes_to_send m) < k \<Longrightarrow>
    \<exists>m' w'. client_send_loop k P io i m w = Some (m', w') \<and> clock_reads m' = clock_reads m"
proof (induction k arbitrary: m w)
  case (Suc k)
  show ?case
  proof (cases "time_to_stop_now io w \<or> bytes_to_send m = 0")
    case False
    then obtain m1 w1 where c: "send_test_chunk io (pool_elt P (sessions m) i) m w = Some (m1, w1)"
      and less: "unat (bytes_to_send m1) < unat (bytes_to_send m)"
      using send_chunk_progress [OF L S Suc.prems(1) q] by blast
    note ok1 = send_chunk_ok [OF L Suc.prems(1) c]
    obtain m2 w2 where
      r: "(if have_return m1 \<noteq> 0 then recv_test_chunk P io i m1 w1 else Some (m1, w1)) = Some (m2, w2)"
      using recv_chunk_total [OF L, of P i m1 w1] by (cases "have_return m1 = 0") auto
    have same: "same_transfer m1 m2" "sent io w2 = sent io w1" "clock_reads m2 = clock_reads m1"
      using r recv_chunk_effect [OF L] by (fastforce simp: same_transfer_def split: if_splits)+
    have ok2: "transfer_ok io tot before m2 w2" by (rule transfer_ok_same [OF ok1(1) same(1,2)])
    have "unat (bytes_to_send m2) < k" using same(1) less Suc.prems(2) by (simp add: same_transfer_def)
    from Suc.IH [OF ok2 this] same(3) ok1(3) False c r show ?thesis by auto
  qed simp
qed simp

lemma client_drain_loop_total:
  assumes L: "io_laws io"
  shows "t \<le> clib_time_now env (clock_reads m + j) \<Longrightarrow> j < k \<Longrightarrow>
    client_drain_loop k P env io i t m w \<noteq> None"
proof (induction k arbitrary: m w j)
  case (Suc k)
  obtain m1 where c: "read_clock env m = (clib_time_now env (clock_reads m), m1)"
    "clock_reads m1 = Suc (clock_reads m)" by (simp add: read_clock_def)
  show ?case
  proof (cases "clib_time_now env (clock_reads m) < t")
    case True
    then obtain j' where j: "j = Suc j'" using Suc.prems(1) by (cases j) auto
    obtain m2 w2 where r: "recv_test_chunk P io i m1 w = Some (m2, w2)"
      using recv_chunk_total [OF L, of P i m1 w] by fastforce
    have "t \<le> clib_time_now env (clock_reads m2 + j')"
      using Suc.prems(1) recv_chunk_effect(4) [OF L r] c(2) j by simp
    from Suc.IH [OF this] Suc.prems(2) j c(1) r True show ?thesis by simp
  qed (simp add: c)
qed simp


text \<open>A client with three bytes to send, on the concrete network.\<close>

definition demo_client :: "demo_slots udp_echo_main" where
  "demo_client = udp_echo_main_zero [(True, zero_session)]\<lparr>have_return := 1, bytes_to_send := 3\<rparr>"

lemma demo_client_fields:
  "connect_test_data demo_client = []"
  "length (connect_test_data demo_client) \<le> 2 ^ 20" "bytes_sent demo_client = 0"
  "unat (bytes_to_send demo_client) < 6" "clock_reads demo_client = 0"
  by (simp_all add: demo_client_def udp_echo_main_zero_def)

lemma demo_enqueue: "\<forall>f w. svm_fifo_max_enqueue demo_io f w > 0"
  by (simp add: demo_io_def)


lemma demo_client_returns:
  obtains m' w' where
    "client_send_data 6 demo_pool demo_env demo_io 0 (demo_client\<lparr>have_return := 0\<rparr>) ([9], [], []) = Some (m', w')"
proof -
  let ?m = "demo_client\<lparr>have_return := 0\<rparr>" and ?w = "([9], [], []) :: demo_net"
  have T: "transfer_ok demo_io 3 [] (client_ready demo_env ?m) ?w"
    by (simp add: transfer_ok_def client_ready_def read_clock_def test_pattern_def demo_io_def
        demo_client_def udp_echo_main_zero_def)
  have "unat (bytes_to_send (client_ready demo_env ?m)) < 6"
    by (simp add: client_ready_def read_clock_def demo_client_def)
  from client_send_loop_total [OF demo_io_laws demo_stream_laws _ T this, of demo_pool 0]
  obtain m1 w1 where l: "client_send_loop 6 demo_pool demo_io 0 (client_ready demo_env ?m) ?w = Some (m1, w1)"
    using demo_enqueue by blast
  then have "have_return m1 = 0"
    using client_send_loop_ok [OF demo_io_laws T l]
    by (simp add: client_ready_def read_clock_def)
  with l have "client_send_data 6 demo_pool demo_env demo_io 0 ?m ?w \<noteq> None"
    by (simp add: client_send_data_shape demo_client_fields client_drain_def read_clock_def)
  then show ?thesis using that by auto
qed

theorem client_sends_pattern_witness:
  "\<exists>m' w'. client_send_data 6 demo_pool demo_env demo_io 0 (demo_client\<lparr>have_return := 0\<rparr>) ([9], [], [])
       = Some (m', w') \<and> sent demo_io w' = [0, 1, 2]"
proof -
  obtain m' w' where r: "client_send_data 6 demo_pool demo_env demo_io 0 (demo_client\<lparr>have_return := 0\<rparr>)
      ([9], [], []) = Some (m', w')" by (rule demo_client_returns)
  have "sent demo_io w' = test_pattern (unat (bytes_sent m'))" "unat (bytes_sent m') = 3"
    using client_sends_pattern [OF demo_io_laws _ _ r] demo_client_fields
    by (auto simp: demo_io_def demo_client_def)
  then show ?thesis using r by (simp add: test_pattern_def upt_rec numeral_eq_Suc)
qed

section \<open>Datagrams whose headers are counted\<close>


definition drained_io :: "demo_net fifo_io" where
  "drained_io = demo_io\<lparr>app_recv_dgram_raw := (\<lambda>f n t w. (0, [], t, w))\<rparr>"


section \<open>The cut-through thread's counters\<close>

lemma ct_write_count:
  assumes L: "io_laws io"
  shows "ct_write k io f buf off n c w = Some (c', w') \<Longrightarrow> 0 \<le> n \<Longrightarrow>
    c' = c + word_of_int n \<and> length (sent io w') = length (sent io w) + nat n"
proof (induction k arbitrary: off n c w)
  case (Suc k)
  show ?case
  proof (cases "n > 0")
    case True
    obtain rv w1 where a: "svm_fifo_enqueue_nowait io f (take (nat n) (drop (unat off) buf)) w = (rv, w1)"
      by fastforce
    note law = io_lawsD(6) [OF L a, unfolded send_law_def]
    from Suc.prems True have len: "unat off + nat n \<le> length buf" by (auto split: if_splits)
    then have d: "length (take (nat n) (drop (unat off) buf)) = nat n" by simp
    show ?thesis
    proof (cases "rv > 0")
      case False
      with Suc.prems True a len have "ct_write k io f buf off n c w1 = Some (c', w')" by simp
      from Suc.IH [OF this Suc.prems(2)] law False show ?thesis by simp
    next
      case rv: True
      with Suc.prems True a len have "ct_write k io f buf (off + word_of_int rv) (n - rv)
          (c + word_of_int rv) w1 = Some (c', w')" by simp
      moreover have le: "rv \<le> n" using law d True by linarith
      moreover have "length (take (nat rv) (take (nat n) (drop (unat off) buf))) = nat rv"
        using len le by auto
      ultimately show ?thesis
        using Suc.IH [of "off + word_of_int rv" "n - rv" "c + word_of_int rv" w1] law rv
        by (auto simp: algebra_simps)
    qed
  qed (use Suc.prems in auto)
qed simp

lemma ct_read_law:
  assumes L: "io_laws io"
  shows "ct_read k io ret f buf w = Some (n, buf', w') \<Longrightarrow>
    0 < n \<and> (ret \<longrightarrow> sent io w' = sent io w)"
proof (induction k arbitrary: buf w)
  case (Suc k)
  show ?case
  proof (cases ret)
    case True
    obtain r bs w1 where a: "svm_fifo_dequeue_nowait io f (of_nat (length buf)) w = (r, bs, w1)"
      by (metis prod_cases3)
    with io_lawsD(3) [OF L a] True Suc show ?thesis
      by (fastforce simp: recv_law_def split: option.splits if_splits)
  next
    case False
    with Suc show ?thesis by (fastforce simp: Let_def split: if_splits)
  qed
qed simp

text \<open>When the cut-through thread reflects and stops, it has counted as sent exactly what it
  has counted as received, and that many bytes were written to the fifo.\<close>

theorem cut_through_counts:
  assumes "io_laws io" and "have_return m \<noteq> 0"
    and "cut_through_thread_fn k P io m c w = Some (c', w')"
  shows "server_bytes_received c' - server_bytes_received c = server_bytes_sent c' - server_bytes_sent c \<and>
    server_bytes_sent c' - server_bytes_sent c = of_nat (length (sent io w') - length (sent io w))"
proof -
  have loop: "ct_loop k io True f g buf c w = Some (c', w') \<Longrightarrow>
      server_bytes_received c' - server_bytes_received c = server_bytes_sent c' - server_bytes_sent c \<and>
      length (sent io w) \<le> length (sent io w') \<and>
      server_bytes_sent c' - server_bytes_sent c = of_nat (length (sent io w') - length (sent io w))"
    for k f g buf c w
  proof (induction k arbitrary: buf c w)
    case (Suc k)
    then obtain n buf1 w1 where r: "ct_read k io True f buf w = Some (n, buf1, w1)"
      by (auto split: option.splits)
    with Suc.prems obtain b w2 where t: "ct_write k io g buf1 0 n (server_bytes_sent c) w1 = Some (b, w2)"
      by (auto simp: Let_def split: option.splits)
    let ?c = "c\<lparr>server_bytes_received := server_bytes_received c + word_of_int n, server_bytes_sent := b\<rparr>"
    have n: "0 < n" "sent io w1 = sent io w" using ct_read_law [OF assms(1) r] by auto
    note cnt = ct_write_count [OF assms(1) t less_imp_le [OF n(1)]]
    have grow: "length (sent io w) \<le> length (sent io w2)"
      "(word_of_int n :: u64) = of_nat (length (sent io w2) - length (sent io w))"
      using cnt n by simp_all
    show ?case
    proof (cases "time_to_stop_now io w2")
      case True
      with Suc.prems r t have "c' = ?c" "w' = w2" by (auto simp: Let_def)
      with cnt n show ?thesis by simp
    next
      case False
      with Suc.prems r t have "ct_loop k io True f g buf1 ?c w2 = Some (c', w')"
        by (simp add: Let_def)
      note ih = Suc.IH [OF this]
      have "length (sent io w') - length (sent io w)
          = (length (sent io w') - length (sent io w2)) + (length (sent io w2) - length (sent io w))"
        using ih grow(1) by linarith
      then have "(of_nat (length (sent io w') - length (sent io w)) :: u64)
          = of_nat (length (sent io w') - length (sent io w2)) + word_of_int n"
        by (simp only: of_nat_add grow(2))
      moreover have "length (sent io w) \<le> length (sent io w')" using ih grow(1) by linarith
      ultimately show ?thesis using ih cnt by (auto simp: algebra_simps)
    qed
  qed simp
  show ?thesis
    using assms(2,3) loop by (auto simp: cut_through_thread_fn_def Let_def split: if_splits)
qed

end
