(* ===== verification/UdpMain.thy ===== *)
theory UdpMain
  imports UdpData
begin

text \<open>
  The two roles of \<open>src/src/udp-echo/main.c\<close> and its \<open>main\<close>: waiting for a state, attaching,
  the client's test, the server's event loop, and the command line.

  The API thread runs beside the main thread and changes the state. \<open>sched\<close> says which replies it
  handles: \<open>fst (sched n)\<close> and \<open>snd (sched n)\<close> before the first and the second look the main
  thread takes at the state after its \<open>n\<close>-th reading of the clock. \<open>None\<close> is a crash, fuel that
  ran out, or waiting for a message that never comes.
\<close>

type_synonym schedule = "nat \<Rightarrow> api_event list \<times> api_event list"

section \<open>Waiting for a state\<close>

fun wait_loop ::
    "nat \<Rightarrow> vpp_env \<Rightarrow> schedule \<Rightarrow> real \<Rightarrow> connection_state \<Rightarrow> 'p udp_echo_main \<Rightarrow>
      (int \<times> 'p udp_echo_main) option" where
  "wait_loop 0 env sched timeout s utm = None"
| "wait_loop (Suc k) env sched timeout s utm =
     (case read_clock env utm of
        (now, utm) \<Rightarrow>
          if now < timeout then
            (case run_steps (tcp_echo_api env) (fst (sched (clock_reads utm))) utm of
               None \<Rightarrow> None
             | Some utm \<Rightarrow>
                 if state utm = s then Some (0, utm)
                 else
                   (case run_steps (tcp_echo_api env) (snd (sched (clock_reads utm))) utm of
                      None \<Rightarrow> None
                    | Some utm \<Rightarrow>
                        if state utm = STATE_FAILED then Some (- 1, utm)
                        else wait_loop k env sched timeout s utm))
          else Some (- 1, utm))"

definition wait_for_state_change ::
    "nat \<Rightarrow> vpp_env \<Rightarrow> schedule \<Rightarrow> connection_state \<Rightarrow> 'p udp_echo_main \<Rightarrow>
      (int \<times> 'p udp_echo_main) option" where
  "wait_for_state_change k env sched s utm =
     (case read_clock env utm of (now, utm) \<Rightarrow> wait_loop k env sched (now + 600) s utm)"

definition application_attach ::
    "nat \<Rightarrow> vpp_env \<Rightarrow> schedule \<Rightarrow> 'p udp_echo_main \<Rightarrow> (int \<times> 'p udp_echo_main) option" where
  "application_attach k env sched utm =
     (let utm = application_send_attach env utm
      in case wait_for_state_change k env sched STATE_ATTACHED utm of
           None \<Rightarrow> None
         | Some (r, utm) \<Rightarrow>
             if r \<noteq> 0 then Some (- 1, emit (Warning ''timeout waiting for STATE_ATTACHED'') utm)
             else Some (0, utm))"

section \<open>The client\<close>

text \<open>Waiting for the session: \<open>evs\<close> are the messages that arrive in the queue.\<close>

fun connect_loop ::
    "'p session_pool \<Rightarrow> vpp_env \<Rightarrow> 'i uri_env \<Rightarrow> schedule \<Rightarrow> real \<Rightarrow> mq_event list \<Rightarrow> 'p udp_echo_main \<Rightarrow>
      'p udp_echo_main option" where
  "connect_loop P env ue sched start evs utm =
     (case run_steps (tcp_echo_api env) (fst (sched (clock_reads utm))) utm of
        None \<Rightarrow> None
      | Some utm \<Rightarrow>
          if pool_elts P (sessions utm) \<noteq> 1 \<and> state utm \<noteq> STATE_FAILED then
            (case evs of
               [] \<Rightarrow> None
             | e # es \<Rightarrow>
                 (case handle_mq_event P env ue e utm of
                    None \<Rightarrow> None
                  | Some utm \<Rightarrow>
                      (case read_clock env utm of
                         (now, utm) \<Rightarrow>
                           if now - start \<ge> 100 then Some utm
                           else connect_loop P env ue sched start es utm)))
          else Some utm)"

definition client_test ::
    "nat \<Rightarrow> 'p session_pool \<Rightarrow> vpp_env \<Rightarrow> 'i uri_env \<Rightarrow> 'w fifo_io \<Rightarrow> schedule \<Rightarrow> mq_event list \<Rightarrow>
      'p udp_echo_main \<Rightarrow> 'w \<Rightarrow> ('p udp_echo_main \<times> 'w) option" where
  "client_test k P env ue io sched evs utm w =
     (case application_attach k env sched utm of
        None \<Rightarrow> None
      | Some (r, utm) \<Rightarrow>
          if r \<noteq> 0 then Some (utm, w)
          else
            (case udp_client_send_connect env utm of
               None \<Rightarrow> None
             | Some utm \<Rightarrow>
                 (case read_clock env utm of
                    (start, utm) \<Rightarrow>
                      (case connect_loop P env ue sched start evs utm of
                         None \<Rightarrow> None
                       | Some utm \<Rightarrow>
                           (case client_send_data k P env io
                                   (if cut_through_session_index utm \<noteq> - 1
                                    then cut_through_session_index utm else connected_session utm) utm w of
                              None \<Rightarrow> None
                            | Some (utm, w) \<Rightarrow>
                                map_option (\<lambda>(_, utm). (utm, w))
                                  (wait_for_state_change k env sched STATE_DETACHED
                                     (application_detach env utm)))))))"

section \<open>The server\<close>

text \<open>What \<open>svm_msg_q_sub\<close> delivers.\<close>

datatype queue_item =
    Sub_failed
  | Io_evt_rx u32
  | Ctrl_event mq_event

fun wait_ready :: "nat \<Rightarrow> vpp_env \<Rightarrow> schedule \<Rightarrow> 'p udp_echo_main \<Rightarrow> 'p udp_echo_main option" where
  "wait_ready 0 env sched utm = None"
| "wait_ready (Suc k) env sched utm =
     (if state utm \<noteq> STATE_READY then
        (case run_steps (tcp_echo_api env) (fst (sched k)) utm of
           None \<Rightarrow> None
         | Some utm \<Rightarrow> wait_ready k env sched utm)
      else Some utm)"

type_synonym ('p, 'w) server_state = "'p udp_echo_main \<times> meter \<times> 'w"

definition handle_queue_item ::
    "nat \<Rightarrow> 'p session_pool \<Rightarrow> vpp_env \<Rightarrow> 'i uri_env \<Rightarrow> 'w fifo_io \<Rightarrow> queue_item \<Rightarrow> ('p, 'w) server_state \<Rightarrow>
      ('p, 'w) server_state option" where
  "handle_queue_item k P env ue io e st =
     (case st of (utm, meter, w) \<Rightarrow>
        (case e of
           Sub_failed \<Rightarrow> Some (emit (Warning ''svm msg q returned'') utm, meter, w)
         | Io_evt_rx idx \<Rightarrow> server_handle_fifo_event_rx k P io idx utm meter w
         | Ctrl_event c \<Rightarrow> map_option (\<lambda>utm. (utm, meter, w)) (handle_mq_event P env ue c utm)))"

definition print_stats :: "'p session_pool \<Rightarrow> 'p udp_echo_main \<Rightarrow> 'p udp_echo_main" where
  "print_stats P utm =
     (if time_to_print_stats utm = 1 then
        emit (Connections (pool_elts P (sessions utm))) (utm\<lparr>time_to_print_stats := 0\<rparr>)
      else utm)"

fun event_loop ::
    "nat \<Rightarrow> 'p session_pool \<Rightarrow> vpp_env \<Rightarrow> 'i uri_env \<Rightarrow> 'w fifo_io \<Rightarrow> queue_item list \<Rightarrow>
      ('p, 'w) server_state \<Rightarrow> ('p, 'w) server_state option" where
  "event_loop k P env ue io [] st = None"
| "event_loop k P env ue io (e # es) st =
     (case handle_queue_item k P env ue io e st of
        None \<Rightarrow> None
      | Some (utm, meter, w) \<Rightarrow>
          if e = Sub_failed then event_loop k P env ue io es (utm, meter, w)
          else if time_to_stop_now io w then Some (utm, meter, w)
          else event_loop k P env ue io es (print_stats P utm, meter, w))"

definition server_handle_event_queue ::
    "nat \<Rightarrow> 'p session_pool \<Rightarrow> vpp_env \<Rightarrow> 'i uri_env \<Rightarrow> 'w fifo_io \<Rightarrow> schedule \<Rightarrow> queue_item list \<Rightarrow>
      ('p, 'w) server_state \<Rightarrow> ('p, 'w) server_state option" where
  "server_handle_event_queue k P env ue io sched es st =
     (case st of (utm, meter, w) \<Rightarrow>
        (case wait_ready k env sched utm of
           None \<Rightarrow> None
         | Some utm \<Rightarrow> event_loop k P env ue io es (utm, meter, w)))"

definition udp_server_test ::
    "nat \<Rightarrow> 'p session_pool \<Rightarrow> vpp_env \<Rightarrow> 'i uri_env \<Rightarrow> 'w fifo_io \<Rightarrow> schedule \<Rightarrow> queue_item list \<Rightarrow>
      ('p, 'w) server_state \<Rightarrow> ('p, 'w) server_state option" where
  "udp_server_test k P env ue io sched es st =
     (case st of (utm, meter, w) \<Rightarrow>
        (let wait_for_state = (if is_connected utm \<noteq> 0 then STATE_BOUND else STATE_READY)
         in case server_bind env (application_send_attach env utm) of
              None \<Rightarrow> None
            | Some utm \<Rightarrow>
                (case wait_for_state_change k env sched wait_for_state utm of
                   None \<Rightarrow> None
                 | Some (r, utm) \<Rightarrow>
                     if r \<noteq> 0 then Some (emit (Warning ''timeout waiting for state change'') utm, meter, w)
                     else
                       (case server_handle_event_queue k P env ue io sched es (utm, meter, w) of
                          None \<Rightarrow> None
                        | Some (utm, meter, w) \<Rightarrow>
                            (case server_unbind env utm of
                               None \<Rightarrow> None
                             | Some utm \<Rightarrow>
                                 (case wait_for_state_change k env sched STATE_START utm of
                                    None \<Rightarrow> None
                                  | Some (r, utm) \<Rightarrow>
                                      if r \<noteq> 0
                                      then Some (emit (Warning ''timeout waiting for STATE_START'') utm, meter, w)
                                      else Some (application_detach env utm, meter, w)))))))"

section \<open>The command line\<close>

text \<open>What \<open>unformat\<close> recognises, in the order of the arguments; \<open>Opt_other\<close> is anything else.\<close>

datatype cmd_option =
    Opt_chroot
  | Opt_uri "u8 list"
  | Opt_segment_M u32
  | Opt_segment_G u32
  | Opt_server
  | Opt_client
  | Opt_no_return
  | Opt_mbytes u32
  | Opt_fifo_size u32
  | Opt_other

record 'p config =
  cfg_main :: "'p udp_echo_main"
  cfg_uri :: "u8 list"
  cfg_server :: int

fun main_option :: "cmd_option \<Rightarrow> 'p config \<Rightarrow> 'p config option" where
  "main_option Opt_chroot c = Some c"
| "main_option (Opt_uri u) c = Some (c\<lparr>cfg_uri := u\<rparr>)"
| "main_option (Opt_segment_M tmp) c =
     Some (c\<lparr>cfg_main := (cfg_main c)\<lparr>configured_segment_size := push_bit 20 tmp\<rparr>\<rparr>)"
| "main_option (Opt_segment_G tmp) c =
     Some (c\<lparr>cfg_main := (cfg_main c)\<lparr>configured_segment_size := push_bit 30 tmp\<rparr>\<rparr>)"
| "main_option Opt_server c = Some (c\<lparr>cfg_server := 1\<rparr>)"
| "main_option Opt_client c = Some (c\<lparr>cfg_server := 0\<rparr>)"
| "main_option Opt_no_return c = Some (c\<lparr>cfg_main := (cfg_main c)\<lparr>have_return := 0\<rparr>\<rparr>)"
| "main_option (Opt_mbytes tmp) c =
     Some (c\<lparr>cfg_main := (cfg_main c)\<lparr>bytes_to_send := push_bit 20 (ucast tmp)\<rparr>\<rparr>)"
| "main_option (Opt_fifo_size tmp) c =
     Some (c\<lparr>cfg_main := (cfg_main c)\<lparr>fifo_size := push_bit 10 tmp\<rparr>\<rparr>)"
| "main_option Opt_other c = None"

definition default_uri :: "u8 list" where
  "default_uri = [0x75, 0x64, 0x70, 0x3A, 0x2F, 0x2F, 0x36, 0x2E, 0x30, 0x2E, 0x31, 0x2E, 0x31, 0x2F,
     0x31, 0x32, 0x33, 0x34]"

definition main_defaults :: "int \<Rightarrow> (int \<times> string) list \<Rightarrow> 'p \<Rightarrow> 'p config" where
  "main_defaults pid errs p =
     (let utm = udp_echo_main_zero p;
          utm = utm\<lparr>rx_buf := vec_validate (push_bit 10 64) (rx_buf utm)\<rparr>;
          utm = utm\<lparr>my_pid := pid, configured_segment_size := push_bit 10 128, have_return := 1,
                   bytes_to_send := 1024, fifo_size := push_bit 10 64,
                   cut_through_session_index := - 1\<rparr>
      in \<lparr>cfg_main = init_error_string_table errs utm, cfg_uri = default_uri, cfg_server = 1\<rparr>)"

text \<open>After the options: the role, and the URI with its terminating zero; \<open>uri[4]\<close> is read from it.\<close>

definition main_role :: "'p config \<Rightarrow> 'p udp_echo_main option" where
  "main_role c =
     (let utm = (cfg_main c)\<lparr>i_am_server := cfg_server c\<rparr>;
          uri = cfg_uri c @ [0]
      in if length uri \<le> 4 then None
         else
           (let conn = (if uri ! 4 = 0x63 then 1 else 0)
            in if i_am_server utm \<noteq> 0 then Some (utm\<lparr>listen_uri := uri, is_connected := conn\<rparr>)
               else Some (utm\<lparr>connect_uri := uri, is_connected := conn\<rparr>)))"

text \<open>\<open>connect_to_vpp\<close>: the input queue and client index of a connection that VPP granted.\<close>

definition connect_to_vpp :: "(ptr \<times> u32) option \<Rightarrow> 'p udp_echo_main \<Rightarrow> 'p udp_echo_main option" where
  "connect_to_vpp conn utm =
     map_option (\<lambda>(q, i). utm\<lparr>vl_input_queue := q, my_client_index := i\<rparr>) conn"

text \<open>The preallocation: \<open>n\<close> cleared sessions are taken, then the indices below \<open>n\<close> given back.\<close>

fun prealloc_get :: "'p session_pool \<Rightarrow> nat \<Rightarrow> 'p \<Rightarrow> 'p option" where
  "prealloc_get P 0 p = Some p"
| "prealloc_get P (Suc n) p =
     (case pool_get P p of
        None \<Rightarrow> None
      | Some (i, p) \<Rightarrow> prealloc_get P n (pool_upd P p i (\<lambda>_. zero_session)))"

definition prealloc_put :: "'p session_pool \<Rightarrow> nat \<Rightarrow> 'p \<Rightarrow> 'p" where
  "prealloc_put P n p = fold (\<lambda>i p. pool_put P p i) [0..<n] p"

definition prealloc :: "'p session_pool \<Rightarrow> nat \<Rightarrow> 'p \<Rightarrow> 'p option" where
  "prealloc P n p = map_option (prealloc_put P n) (prealloc_get P n p)"

definition main_fn ::
    "nat \<Rightarrow> 'p session_pool \<Rightarrow> vpp_env \<Rightarrow> 'i uri_env \<Rightarrow> 'w fifo_io \<Rightarrow> schedule \<Rightarrow> mq_event list \<Rightarrow>
      queue_item list \<Rightarrow> int \<Rightarrow> (int \<times> string) list \<Rightarrow> cmd_option list \<Rightarrow> (ptr \<times> u32) option \<Rightarrow>
      'p \<Rightarrow> 'w \<Rightarrow> ('p udp_echo_main \<times> 'w) option" where
  "main_fn k P env ue io sched evs es pid errs opts conn p w =
     (case run_steps main_option opts (main_defaults pid errs p) of
        None \<Rightarrow> None
      | Some c \<Rightarrow>
          (case main_role c of
             None \<Rightarrow> None
           | Some utm \<Rightarrow>
               (case connect_to_vpp conn utm of
                  None \<Rightarrow> None
                | Some utm \<Rightarrow>
                    if i_am_server utm = 0 then client_test k P env ue io sched evs utm w
                    else
                      (case prealloc P 200000 (sessions utm) of
                         None \<Rightarrow> None
                       | Some p \<Rightarrow>
                           map_option (\<lambda>(utm, _, w). (utm, w))
                             (udp_server_test k P env ue io sched es (utm\<lparr>sessions := p\<rparr>, meter0, w))))))"

section \<open>Waiting\<close>

lemma wait_loop_result:
  "wait_loop k env sched t s m = Some (r, m') \<Longrightarrow>
     (r = 0 \<and> state m' = s) \<or>
     (r = - 1 \<and> (state m' = STATE_FAILED \<or> t \<le> clib_time_now env (clock_reads m' - 1)))"
proof (induction k arbitrary: m)
  case (Suc k)
  then show ?case
    by (auto simp: read_clock_def split: if_splits option.splits)
qed simp

text \<open>What the API thread leaves alone.\<close>

lemma api_frame:
  "tcp_echo_api env e m = Some m' \<Longrightarrow> clock_reads m' = clock_reads m \<and> have_return m' = have_return m \<and>
     rx_buf m' = rx_buf m"
  by (cases e) (auto simp: api_handler_defs assert_that_def format_api_error_def emit_def Let_def
      split: if_splits option.splits)

lemma api_run_frame:
  assumes "run_steps (tcp_echo_api env) es m = Some m'"
  shows "clock_reads m' = clock_reads m" and "have_return m' = have_return m"
    and "sessions m' = sessions m"
    and "session_index_by_vpp_handles m' = session_index_by_vpp_handles m" and "rx_buf m' = rx_buf m"
proof -
  have "clock_reads m' = clock_reads m \<and> have_return m' = have_return m \<and> sessions m' = sessions m \<and>
      session_index_by_vpp_handles m' = session_index_by_vpp_handles m \<and> rx_buf m' = rx_buf m"
    using assms
  proof (induction es arbitrary: m)
    case (Cons e es)
    then obtain m1 where "tcp_echo_api env e m = Some m1" "run_steps (tcp_echo_api env) es m1 = Some m'"
      by (auto split: option.splits)
    then show ?case using Cons.IH [of m1] api_frame [of env e m m1] api_state [of env e m m1] by simp
  qed simp
  then show "clock_reads m' = clock_reads m" "have_return m' = have_return m" "sessions m' = sessions m"
    "session_index_by_vpp_handles m' = session_index_by_vpp_handles m" "rx_buf m' = rx_buf m" by simp_all
qed

lemmas api_clock = api_run_frame(1)

text \<open>Waiting for a state tells the truth: the result 0 means that the program is in the state
  it waited for; the result -1 means that the state is \<open>STATE_FAILED\<close> or that the clock has passed
  600 seconds after the first reading; there is no other result.\<close>

theorem wait_result:
  assumes "wait_for_state_change k env sched s m = Some (r, m')"
  shows "(r = 0 \<and> state m' = s) \<or>
    (r = - 1 \<and> (state m' = STATE_FAILED \<or>
       clib_time_now env (clock_reads m) + 600 \<le> clib_time_now env (clock_reads m' - 1)))"
  using assms wait_loop_result
  by (fastforce simp: wait_for_state_change_def read_clock_def)

text \<open>A reply that the API thread survives: not a refused bind, and an attach reply that names the
  event queue.\<close>

fun api_safe :: "api_event \<Rightarrow> bool" where
  "api_safe (Bind_uri_reply retval) = (retval = 0)"
| "api_safe (Application_attach_reply mp rv) = (ar_event_queue mp \<noteq> 0)"
| "api_safe e = True"

lemma api_safe_total: "api_safe e \<Longrightarrow> \<exists>m'. tcp_echo_api env e m = Some m'"
  by (cases e) (auto simp: api_handler_defs assert_that_def Let_def)

lemma api_safe_run: "list_all api_safe es \<Longrightarrow> \<exists>m'. run_steps (tcp_echo_api env) es m = Some m'"
proof (induction es arbitrary: m)
  case (Cons e es)
  then obtain m1 where "tcp_echo_api env e m = Some m1" using api_safe_total by fastforce
  with Cons show ?case by simp
qed simp

lemma wait_loop_total:
  assumes safe: "\<And>n. list_all api_safe (fst (sched n)) \<and> list_all api_safe (snd (sched n))"
  shows "t \<le> clib_time_now env (clock_reads m + j) \<Longrightarrow> j < k \<Longrightarrow> wait_loop k env sched t s m \<noteq> None"
proof (induction k arbitrary: m j)
  case (Suc k)
  show ?case
  proof (cases "clib_time_now env (clock_reads m) < t")
    case True
    then obtain j' where j: "j = Suc j'" using Suc.prems(1) by (cases j) auto
    let ?m = "m\<lparr>clock_reads := Suc (clock_reads m)\<rparr>"
    obtain m1 where m1: "run_steps (tcp_echo_api env) (fst (sched (Suc (clock_reads m)))) ?m = Some m1"
      using safe api_safe_run by blast
    obtain m2 where m2: "run_steps (tcp_echo_api env) (snd (sched (Suc (clock_reads m)))) m1 = Some m2"
      using safe api_safe_run by blast
    have "t \<le> clib_time_now env (clock_reads m2 + j')"
      using Suc.prems(1) j api_clock [OF m1] api_clock [OF m2] by simp
    from Suc.IH [OF this] Suc.prems(2) j True m1 m2 api_clock [OF m1] show ?thesis
      by (simp add: read_clock_def)
  qed (simp add: read_clock_def)
qed simp

text \<open>C17: waiting always comes to an end: as long as the API thread survives its replies and the
  clock gets past 600 seconds (by its reading \<open>j\<close> after the wait starts), fuel for \<open>j\<close> readings
  is enough, whatever state is waited for and whatever replies arrive.\<close>

theorem wait_returns:
  assumes "\<forall>n. list_all api_safe (fst (sched n)) \<and> list_all api_safe (snd (sched n))"
    and "clib_time_now env (clock_reads m) + 600 \<le> clib_time_now env (clock_reads m + 1 + j)" and "j < k"
  shows "wait_for_state_change k env sched s m \<noteq> None"
  using wait_loop_total [of sched "clib_time_now env (clock_reads m) + 600" env
      "m\<lparr>clock_reads := Suc (clock_reads m)\<rparr>" j k s] assms
  by (simp add: wait_for_state_change_def read_clock_def)

theorem wait_result_witness:
  "(case wait_for_state_change 1 demo_env (\<lambda>n. ([Application_detach_reply 0], [])) STATE_DETACHED
      (udp_echo_main_zero ()) of None \<Rightarrow> False | Some (r, m') \<Rightarrow> r = 0 \<and> state m' = STATE_DETACHED)"
proof -
  let ?w = "wait_for_state_change 1 demo_env (\<lambda>n. ([Application_detach_reply 0], [])) STATE_DETACHED
    (udp_echo_main_zero ())"
  obtain m' where w: "?w = Some (0, m')"
    by (simp add: wait_for_state_change_def read_clock_def demo_env_def udp_echo_main_zero_def
        vl_api_application_detach_reply_t_handler_def)
  then have "state m' = STATE_DETACHED" using wait_result [OF w] by simp
  with w show ?thesis by simp
qed

theorem wait_returns_witness:
  "wait_for_state_change 700 demo_env (\<lambda>n. ([Map_another_segment \<lparr>ms_segment_name = [], ms_segment_size = 1,
      ms_segment_handle = 2\<rparr> 0 1], [])) STATE_READY (udp_echo_main_zero ()) \<noteq> None"
  by (rule wait_returns [where j = 650]) (simp_all add: demo_env_def udp_echo_main_zero_def)

section \<open>The server's run\<close>

text \<open>A server on a connected URI waits for a state that only its own, not yet running, event loop
  could set.\<close>

lemma api_not_bound:
  "run_steps (tcp_echo_api env) es m = Some m' \<Longrightarrow> state m \<noteq> STATE_BOUND \<Longrightarrow> state m' \<noteq> STATE_BOUND"
  by (rule api.run_inv) simp_all

lemma wait_bound:
  "wait_loop k env sched t STATE_BOUND m = Some (r, m') \<Longrightarrow> state m \<noteq> STATE_BOUND \<Longrightarrow> r = - 1"
proof (induction k arbitrary: m)
  case (Suc k)
  then show ?case
    using api_not_bound by (fastforce simp: read_clock_def split: if_splits option.splits)
qed simp

lemma wait_for_bound:
  "wait_for_state_change k env sched STATE_BOUND m = Some (r, m') \<Longrightarrow> state m \<noteq> STATE_BOUND \<Longrightarrow> r = - 1"
  using wait_bound [of k env sched "clib_time_now env (clock_reads m) + 600"
      "m\<lparr>clock_reads := Suc (clock_reads m)\<rparr>" r m']
  by (simp add: wait_for_state_change_def read_clock_def)

lemma sends_state:
  "state (application_send_attach env m) = state m" "state (application_detach env m) = state m"
  "server_bind env m = Some m' \<Longrightarrow> state m' = state m \<and> is_connected m' = is_connected m \<and>
     have_return m' = have_return m"
  "server_unbind env m = Some m' \<Longrightarrow> state m' = state m"
  "have_return (application_send_attach env m) = have_return m"
  "is_connected (application_send_attach env m) = is_connected m"
  by (auto simp: application_send_attach_def application_detach_def server_bind_def server_unbind_def
      emit_def Let_def)



lemma mq_have_return:
  "handle_mq_event P env ue e m = Some m' \<Longrightarrow> have_return m' = have_return m \<and> rx_buf m' = rx_buf m"
proof (cases e)
  case (Accepted mp)
  moreover assume "handle_mq_event P env ue e m = Some m'"
  ultimately show ?thesis
    by (auto simp: session_accepted_handler_def take_slot_def set_fifo_session_def note_start_time_def
        print_session_rate_def read_clock_def emit_def Let_def split: option.splits if_splits)
qed (auto simp: session_bound_handler_def session_connected_handler_def session_disconnected_handler_def
    connect_remote_def take_slot_def set_fifo_session_def assert_that_def emit_def Let_def
    split: option.splits if_splits prod.splits bool.splits)

lemma rx_have_return:
  "server_handle_fifo_event_rx k P io idx m meter w = Some (m', meter', w') \<Longrightarrow> have_return m' = have_return m"
  by (auto simp: server_handle_fifo_event_rx_def Let_def split: if_splits option.splits)

lemma queue_item_echoed:
  assumes L: "io_laws io" and h: "handle_queue_item k P env ue io e (m, meter, w) = Some (m', meter', w')"
  shows "echoed (length (rx_buf m)) io (have_return m \<noteq> 0) w w'" and "have_return m' = have_return m"
    and "length (rx_buf m') = length (rx_buf m)" and "(\<forall>idx. e \<noteq> Io_evt_rx idx) \<Longrightarrow> w' = w"
proof -
  have refl: "echoed B io ret w w" for B ret by (rule echoed_same) (simp add: quiet_law_def)
  show "echoed (length (rx_buf m)) io (have_return m \<noteq> 0) w w'"
    using h rx_handler_echoed(1) [OF L] refl by (cases e) (auto simp: handle_queue_item_def)
  show "have_return m' = have_return m"
    using h rx_have_return mq_have_return [THEN conjunct1]
    by (cases e) (auto simp: handle_queue_item_def emit_def)
  show "length (rx_buf m') = length (rx_buf m)"
    using h rx_handler_echoed(2) [OF L] mq_have_return
    by (cases e) (fastforce simp: handle_queue_item_def emit_def)+
  show "(\<forall>idx. e \<noteq> Io_evt_rx idx) \<Longrightarrow> w' = w"
    using h by (cases e) (auto simp: handle_queue_item_def)
qed

lemma print_stats_frame [simp]:
  "have_return (print_stats P m) = have_return m" "sessions (print_stats P m) = sessions m"
  "session_index_by_vpp_handles (print_stats P m) = session_index_by_vpp_handles m"
  "state (print_stats P m) = state m" "rx_buf (print_stats P m) = rx_buf m"
  by (simp_all add: print_stats_def emit_def)

lemma event_loop_echoed:
  assumes L: "io_laws io"
  shows "event_loop k P env ue io es (m, meter, w) = Some (m', meter', w') \<Longrightarrow>
    echoed (length (rx_buf m)) io (have_return m \<noteq> 0) w w'"
proof (induction es arbitrary: m meter w)
  case (Cons e es)
  obtain m1 meter1 w1 where h: "handle_queue_item k P env ue io e (m, meter, w) = Some (m1, meter1, w1)"
    using Cons.prems by (auto split: option.splits)
  note item = queue_item_echoed [OF L h]
  show ?case
  proof (cases "e = Sub_failed")
    case True
    with Cons.prems h have "event_loop k P env ue io es (m1, meter1, w1) = Some (m', meter', w')" by simp
    from Cons.IH [OF this] item True show ?thesis by simp
  next
    case go: False
    show ?thesis
    proof (cases "time_to_stop_now io w1")
      case True
      with Cons.prems h go item show ?thesis by simp
    next
      case False
      with Cons.prems h go have "event_loop k P env ue io es (print_stats P m1, meter1, w1) = Some (m', meter', w')"
        by simp
      from Cons.IH [OF this] have "echoed (length (rx_buf m)) io (have_return m \<noteq> 0) w1 w'"
        using item(2,3) by simp
      with item(1) show ?thesis using False by (rule echoed_trans)
    qed
  qed
qed simp

text \<open>The fields that matter to the server's run, unchanged.\<close>

definition same_server :: "'p udp_echo_main \<Rightarrow> 'p udp_echo_main \<Rightarrow> bool" where
  "same_server m m' \<longleftrightarrow>
     have_return m' = have_return m \<and> sessions m' = sessions m \<and>
     session_index_by_vpp_handles m' = session_index_by_vpp_handles m \<and> rx_buf m' = rx_buf m"

lemma same_server_refl [simp]: "same_server m m"
  by (simp add: same_server_def)

lemma same_server_trans [trans]: "same_server a b \<Longrightarrow> same_server b c \<Longrightarrow> same_server a c"
  by (simp add: same_server_def)

lemma api_same_server: "run_steps (tcp_echo_api env) es m = Some m' \<Longrightarrow> same_server m m'"
  by (simp add: same_server_def api_run_frame)

lemma wait_loop_same: "wait_loop k env sched t s m = Some (r, m') \<Longrightarrow> same_server m m'"
proof (induction k arbitrary: m)
  case (Suc k)
  let ?m = "m\<lparr>clock_reads := Suc (clock_reads m)\<rparr>"
  have c: "same_server m ?m" by (simp add: same_server_def)
  show ?case
  proof (cases "clib_time_now env (clock_reads m) < t")
    case True
    with Suc.prems obtain m1 where m1: "run_steps (tcp_echo_api env) (fst (sched (clock_reads ?m))) ?m = Some m1"
      by (auto simp: read_clock_def split: option.splits)
    note s1 = same_server_trans [OF c api_same_server [OF m1]]
    show ?thesis
    proof (cases "state m1 = s")
      case False
      with Suc.prems True m1 obtain m2 where
        m2: "run_steps (tcp_echo_api env) (snd (sched (clock_reads m1))) m1 = Some m2"
        by (auto simp: read_clock_def split: option.splits)
      note s2 = same_server_trans [OF s1 api_same_server [OF m2]]
      show ?thesis
      proof (cases "state m2 = STATE_FAILED")
        case False
        with Suc.prems True m1 m2 \<open>state m1 \<noteq> s\<close> have "wait_loop k env sched t s m2 = Some (r, m')"
          by (simp add: read_clock_def)
        with s2 Suc.IH show ?thesis using same_server_trans by blast
      qed (use Suc.prems True m1 m2 s2 False in \<open>simp add: read_clock_def\<close>)
    qed (use Suc.prems True m1 s1 in \<open>simp add: read_clock_def\<close>)
  qed (use Suc.prems c in \<open>simp add: read_clock_def\<close>)
qed simp

lemma wait_same: "wait_for_state_change k env sched s m = Some (r, m') \<Longrightarrow> same_server m m'"
  using wait_loop_same [of k env sched _ s "m\<lparr>clock_reads := Suc (clock_reads m)\<rparr>" r m']
  by (simp add: wait_for_state_change_def read_clock_def same_server_def)

lemma wait_ready_same: "wait_ready k env sched m = Some m' \<Longrightarrow> same_server m m'"
proof (induction k arbitrary: m)
  case (Suc k)
  show ?case
  proof (cases "state m = STATE_READY")
    case False
    with Suc.prems obtain m1 where m1: "run_steps (tcp_echo_api env) (fst (sched k)) m = Some m1"
      and r: "wait_ready k env sched m1 = Some m'" by (auto split: option.splits)
    show ?thesis by (rule same_server_trans [OF api_same_server [OF m1] Suc.IH [OF r]])
  qed (use Suc.prems in simp)
qed simp

lemma sends_same:
  "same_server m (application_send_attach env m)" "same_server m (application_detach env m)"
  "server_bind env m = Some m' \<Longrightarrow> same_server m m'" "server_unbind env m = Some m' \<Longrightarrow> same_server m m'"
  "same_server m (emit x m)"
  by (auto simp: application_send_attach_def application_detach_def server_bind_def server_unbind_def
      same_server_def emit_def Let_def)

text \<open>Every run of the server either ends before it serves, or is one run of the event loop between
  steps that do not touch sessions and data.\<close>

lemma server_run_shape:
  assumes "udp_server_test k P env ue io sched es (m, meter, w) = Some (m', meter', w')"
  shows "(same_server m m' \<and> w' = w \<and> meter' = meter) \<or>
    (\<exists>m1 m2. same_server m m1 \<and> event_loop k P env ue io es (m1, meter, w) = Some (m2, meter', w') \<and>
       same_server m2 m')"
proof -
  let ?a = "application_send_attach env m"
  let ?s = "if is_connected m \<noteq> 0 then STATE_BOUND else STATE_READY"
  obtain b where b: "server_bind env ?a = Some b"
    using assms by (auto simp: udp_server_test_def Let_def split: option.splits)
  with assms obtain r c where c: "wait_for_state_change k env sched ?s b = Some (r, c)"
    by (auto simp: udp_server_test_def Let_def split: option.splits prod.splits)
  have mc: "same_server m c"
    by (rule same_server_trans [OF same_server_trans [OF sends_same(1) sends_same(3) [OF b]] wait_same [OF c]])
  show ?thesis
  proof (cases "r = 0")
    case False
    with assms b c have "m' = emit (Warning ''timeout waiting for state change'') c" "w' = w" "meter' = meter"
      by (auto simp: udp_server_test_def Let_def)
    then show ?thesis using same_server_trans [OF mc sends_same(5)] by simp
  next
    case True
    with assms b c obtain d where d: "wait_ready k env sched c = Some d"
      by (auto simp: udp_server_test_def server_handle_event_queue_def Let_def split: option.splits)
    with assms b c True obtain m2 meter2 w2 where e: "event_loop k P env ue io es (d, meter, w) = Some (m2, meter2, w2)"
      by (auto simp: udp_server_test_def server_handle_event_queue_def Let_def split: option.splits)
    with assms b c d True obtain u where u: "server_unbind env m2 = Some u"
      by (auto simp: udp_server_test_def server_handle_event_queue_def Let_def split: option.splits)
    with assms b c d e True obtain r2 v where v: "wait_for_state_change k env sched STATE_START u = Some (r2, v)"
      by (auto simp: udp_server_test_def server_handle_event_queue_def Let_def split: option.splits prod.splits)
    have v2: "same_server m2 v" by (rule same_server_trans [OF sends_same(4) [OF u] wait_same [OF v]])
    from assms b c d e u v True have "meter' = meter2" "w' = w2"
      "m' = (if r2 \<noteq> 0 then emit (Warning ''timeout waiting for STATE_START'') v else application_detach env v)"
      by (auto simp: udp_server_test_def server_handle_event_queue_def Let_def split: if_splits)
    moreover have "same_server m2 (if r2 \<noteq> 0 then emit (Warning ''timeout waiting for STATE_START'') v
        else application_detach env v)"
      using same_server_trans [OF v2 sends_same(5)] same_server_trans [OF v2 sends_same(2)] by simp
    ultimately show ?thesis
      using e same_server_trans [OF mc wait_ready_same [OF d]] by blast
  qed
qed

text \<open>C2: over its whole run the server sends back what it received. Whatever messages its queue
  delivers, in whatever order control messages and data are mixed, when \<open>udp_server_test\<close> ends
  the bytes sent are the bytes received, in order, but for at most one receive buffer that a stop
  cut off at the end.\<close>

theorem server_echoes:
  assumes "io_laws io" and "have_return m \<noteq> 0"
    and "udp_server_test k P env ue io sched es (m, meter, w) = Some (m', meter', w')"
  shows "\<exists>d j. received io w' = received io w @ d \<and> sent io w' = sent io w @ take j d \<and>
    length d \<le> j + length (rx_buf m)"
proof -
  have "echoed (length (rx_buf m)) io (have_return m \<noteq> 0) w w'"
    using server_run_shape [OF assms(3)]
  proof (elim disjE exE conjE)
    assume "w' = w"
    then show ?thesis by (intro echoed_same) (simp add: quiet_law_def)
  next
    fix m1 m2 assume s: "same_server m m1"
      and e: "event_loop k P env ue io es (m1, meter, w) = Some (m2, meter', w')"
    from event_loop_echoed [OF assms(1) e] s show ?thesis by (simp add: same_server_def)
  qed
  with assms(2) show ?thesis by (auto simp: echoed_def)
qed

text \<open>A run of the server on the concrete network, which stops when all has been delivered.\<close>

definition stop_io :: "demo_net fifo_io" where
  "stop_io = demo_io\<lparr>time_to_stop_now := (\<lambda>(p, r, t). p = [])\<rparr>"

lemma stop_io_laws: "io_laws stop_io"
  unfolding io_laws_def recv_law_def send_law_def quiet_law_def stop_io_def demo_io_def
  by (auto simp: demo_take_def demo_give_def int_min_uint Let_def simp del: of_nat_min split: prod.splits)

lemma stop_io_echo:
  assumes "pool_elt demo_pool (sessions m) 0 = zero_session" and "rx_buf m = [0]" and "have_return m = 1"
  shows "\<exists>meter'. server_handle_fifo_event_rx (Suc (Suc k)) demo_pool stop_io 0 m meter0 ([5], [], [])
    = Some ((upd_session demo_pool 0 (\<lambda>_. zero_session) m)\<lparr>rx_buf := [5]\<rparr>, meter', ([], [5], [5]))"
proof -
  have r: "\<exists>meter'. RECORD 0 \<lparr>now1 = 0, now2 = 0, os_freq = 1\<rparr> 1 1 meter0 = Some (meter', None)"
    by (simp add: RECORD_def record_fn_def FEQ_def meter0_def zero_row_list record_row_shape)
  then obtain meter' where r: "RECORD 0 \<lparr>now1 = 0, now2 = 0, os_freq = 1\<rparr> 1 1 meter0 = Some (meter', None)" ..
  show ?thesis
    using assms r
    by (simp add: server_handle_fifo_event_rx_def Let_def rx_turn_def rx_read_def rx_reflect_def fill_def
        stop_io_def demo_io_def demo_take_def demo_give_def zero_session_def)
qed

definition demo_sched :: schedule where
  "demo_sched n = (if n < 3 then [Bind_uri_reply 0] else [Unbind_uri_reply 0], [])"

lemma stop_server_run:
  obtains m' meter' where
    "udp_server_test (Suc (Suc k)) demo_pool demo_env demo_ue stop_io demo_sched [Sub_failed, Io_evt_rx 0]
       (demo_server\<lparr>rx_buf := [0], session_index_by_vpp_handles := t\<rparr>, meter0, ([5], [], [])) = Some (m', meter', ([], [5], [5]))"
    and "session_index_by_vpp_handles m' = t"
proof -
  have u: "length (listen_uri demo_server) = 0" "sessions demo_server = [(True, zero_session)]"
    "have_return demo_server = 1" "is_connected demo_server = 0" "clock_reads demo_server = 0"
    by (simp_all add: demo_server_def udp_echo_main_zero_def)
  note d = u emit_def Let_def read_clock_def demo_env_def demo_sched_def api_handler_defs
  obtain b where b: "server_bind demo_env (application_send_attach demo_env (demo_server\<lparr>rx_buf := [0], session_index_by_vpp_handles := t\<rparr>)) = Some b"
    and f: "sessions b = [(True, zero_session)]" "rx_buf b = [0]" "have_return b = 1" "clock_reads b = 0"
      "listen_uri b = listen_uri demo_server" "session_index_by_vpp_handles b = t"
    by (simp add: server_bind_def memcpy_uri_def application_send_attach_def d)
  let ?c = "b\<lparr>clock_reads := 2, state := STATE_READY\<rparr>"
  have c: "wait_for_state_change (Suc (Suc k)) demo_env demo_sched STATE_READY b = Some (0, ?c)"
    by (simp add: wait_for_state_change_def f d)
  let ?x = "emit (Warning ''svm msg q returned'') ?c"
  have "pool_elt demo_pool (sessions ?x) 0 = zero_session" "rx_buf ?x = [0]" "have_return ?x = 1"
    using f by (simp_all add: emit_def demo_pool_def)
  from stop_io_echo [OF this, of k] obtain meter' where
    e: "server_handle_fifo_event_rx (Suc (Suc k)) demo_pool stop_io 0 ?x meter0 ([5], [], [])
      = Some ((upd_session demo_pool 0 (\<lambda>_. zero_session) ?x)\<lparr>rx_buf := [5]\<rparr>, meter', ([], [5], [5]))" ..
  let ?y = "(upd_session demo_pool 0 (\<lambda>_. zero_session) ?x)\<lparr>rx_buf := [5]\<rparr>"
  have q: "server_handle_event_queue (Suc (Suc k)) demo_pool demo_env demo_ue stop_io demo_sched
      [Sub_failed, Io_evt_rx 0] (?c, meter0, ([5], [], [])) = Some (?y, meter', ([], [5], [5]))"
    using e by (simp add: server_handle_event_queue_def handle_queue_item_def) (simp add: stop_io_def)
  obtain v where v: "server_unbind demo_env ?y = Some v" "clock_reads v = 2"
    "session_index_by_vpp_handles v = t"
    by (simp add: server_unbind_def memcpy_uri_def upd_session_def f d)
  have "\<exists>r z. wait_for_state_change (Suc (Suc k)) demo_env demo_sched STATE_START v = Some (r, z)"
    by (simp add: wait_for_state_change_def v d)
  then obtain r z where z: "wait_for_state_change (Suc (Suc k)) demo_env demo_sched STATE_START v = Some (r, z)"
    by blast
  have z2: "session_index_by_vpp_handles z = t" using wait_same [OF z] v(3) by (simp add: same_server_def)
  let ?m = "if r \<noteq> 0 then emit (Warning ''timeout waiting for STATE_START'') z else application_detach demo_env z"
  have "udp_server_test (Suc (Suc k)) demo_pool demo_env demo_ue stop_io demo_sched [Sub_failed, Io_evt_rx 0]
       (demo_server\<lparr>rx_buf := [0], session_index_by_vpp_handles := t\<rparr>, meter0, ([5], [], []))
     = Some (?m, meter', ([], [5], [5]))"
    by (simp add: udp_server_test_def b c q v z u Let_def)
  moreover have "session_index_by_vpp_handles ?m = t"
    using z2 sends_same(2) [of z demo_env] by (simp add: same_server_def)
  ultimately show ?thesis using that by blast
qed

theorem server_echoes_witness:
  "\<exists>m' meter' w'. udp_server_test 3 demo_pool demo_env demo_ue stop_io demo_sched [Sub_failed, Io_evt_rx 0]
       (demo_server\<lparr>rx_buf := [0], session_index_by_vpp_handles := Map.empty\<rparr>, meter0, ([5], [], []))
         = Some (m', meter', w') \<and>
     received stop_io w' = [5] \<and> (\<exists>j. sent stop_io w' = take j [5])"
proof -
  obtain m' meter' where r: "udp_server_test 3 demo_pool demo_env demo_ue stop_io demo_sched
      [Sub_failed, Io_evt_rx 0] (demo_server\<lparr>rx_buf := [0], session_index_by_vpp_handles := Map.empty\<rparr>,
         meter0, ([5], [], [])) = Some (m', meter', ([], [5], [5]))"
    by (metis stop_server_run numeral_3_eq_3)
  have h: "have_return (demo_server\<lparr>rx_buf := [0], session_index_by_vpp_handles := Map.empty\<rparr>) \<noteq> 0" by (simp add: demo_server_def)
  from server_echoes [OF stop_io_laws h r] have "\<exists>j. sent stop_io ([], [5], [5]) = take j [5]"
    by (auto simp: stop_io_def demo_io_def)
  with r show ?thesis by (auto simp: stop_io_def demo_io_def)
qed

section \<open>The session table over the server's run\<close>

lemma rx_read_index: "rx_read io s n w = (r, bs, s', w') \<Longrightarrow> session_index s' = session_index s"
  by (auto simp: rx_read_def split: if_splits prod.splits)

lemma rx_turn_index: "rx_turn k io ret s = Some (n, s') \<Longrightarrow> session_index (rx_session s') = session_index (rx_session s)"
  using rx_read_index by (fastforce simp: rx_turn_def Let_def split: prod.splits option.splits)

lemma rx_loop_index: "rx_loop k io ret s = Some s' \<Longrightarrow> session_index (rx_session s') = session_index (rx_session s)"
proof (induction k arbitrary: s)
  case (Suc k)
  then obtain n s1 where t: "rx_turn k io ret s = Some (n, s1)" by (auto split: option.splits)
  with Suc rx_turn_index [OF t] show ?case by (auto split: if_splits)
qed simp

lemma rx_handles_ok:
  assumes L: "pool_laws P" and ok: "handles_ok P m"
    and h: "server_handle_fifo_event_rx k P io idx m meter w = Some (m', meter', w')"
  shows "handles_ok P m'"
proof -
  let ?s = "pool_elt P (sessions m) (unat idx)"
  have "m' = m \<or> (\<exists>s b. session_index s = session_index ?s \<and>
      m' = (upd_session P (unat idx) (\<lambda>_. s) m)\<lparr>rx_buf := b\<rparr>)"
    using h rx_loop_index by (fastforce simp: server_handle_fifo_event_rx_def Let_def split: if_splits option.splits)
  then show ?thesis
  proof (elim disjE exE conjE)
    fix s b assume s: "session_index s = session_index ?s" and m': "m' = (upd_session P (unat idx) (\<lambda>_. s) m)\<lparr>rx_buf := b\<rparr>"
    note st = pool_store [OF L] and v = handles_okD(1) [OF ok]
    show ?thesis
    proof (rule handles_okI)
      show "pool_valid P (sessions m')" using slot_store.upd_valid [OF st v] by (simp add: m')
    next
      fix hd v assume k: "session_index_by_vpp_handles m' hd = Some v"
      then have k': "session_index_by_vpp_handles m hd = Some v" by (simp add: m')
      show "pool_live P (sessions m') (unat v)" using handles_okD(2) [OF ok k'] slot_store.upd_live [OF st v] by (simp add: m')
      show "session_index (pool_elt P (sessions m') (unat v)) = ucast v"
        using handles_okD(2,3) [OF ok k'] slot_store.upd_same [OF st v, where f = "\<lambda>_. s" and i = "unat idx"]
          slot_store.upd_other [OF st v, where f = "\<lambda>_. s" and i = "unat idx" and j = "unat v"] s
        by (cases "unat v = unat idx") (simp_all add: m')
    next
      fix hd k v assume "session_index_by_vpp_handles m' hd = Some v" "session_index_by_vpp_handles m' k = Some v"
      then show "hd = k" using handles_okD(4) [OF ok] by (simp add: m')
    qed
  qed (use ok in simp)
qed

lemma queue_item_handles:
  assumes L: "pool_laws P" and ok: "handles_ok P m"
    and h: "handle_queue_item k P env ue io e (m, meter, w) = Some (m', meter', w')"
  shows "handles_ok P m'"
  using h rx_handles_ok [OF L ok] mq_event_handles [OF L ok] handles_ok_same [OF ok]
  by (cases e) (auto simp: handle_queue_item_def)

lemma event_loop_handles:
  assumes L: "pool_laws P"
  shows "event_loop k P env ue io es (m, meter, w) = Some (m', meter', w') \<Longrightarrow> handles_ok P m \<Longrightarrow> handles_ok P m'"
proof (induction es arbitrary: m meter w)
  case (Cons e es)
  obtain m1 meter1 w1 where h: "handle_queue_item k P env ue io e (m, meter, w) = Some (m1, meter1, w1)"
    using Cons.prems by (auto split: option.splits)
  note ok1 = queue_item_handles [OF L Cons.prems(2) h]
  have ok2: "handles_ok P (print_stats P m1)" by (rule handles_ok_same [OF ok1]) simp_all
  show ?case
    using Cons.prems(1) h Cons.IH [OF _ ok1] Cons.IH [OF _ ok2] ok1 by (auto split: if_splits)
qed simp

text \<open>The session table is still sound when the server ends, after any mixture of control
  messages and data: each handle in it leads to a session in use that carries its own index.\<close>

theorem server_keeps_table:
  assumes "pool_laws P" and "handles_ok P m"
    and "udp_server_test k P env ue io sched es (m, meter, w) = Some (m', meter', w')"
    and "session_index_by_vpp_handles m' h = Some v"
  shows "pool_live P (sessions m') (unat v) \<and>
    session_index (pool_elt P (sessions m') (unat v)) = ucast v"
proof -
  have "handles_ok P m'"
    using server_run_shape [OF assms(3)]
  proof (elim disjE exE conjE)
    assume "same_server m m'"
    with assms(2) show ?thesis by (auto simp: same_server_def intro: handles_ok_same)
  next
    fix m1 m2 assume s: "same_server m m1" "same_server m2 m'"
      and e: "event_loop k P env ue io es (m1, meter, w) = Some (m2, meter', w')"
    have "handles_ok P m1" using s(1) assms(2) by (auto simp: same_server_def intro: handles_ok_same)
    from event_loop_handles [OF assms(1) e this] s(2) show ?thesis
      by (auto simp: same_server_def intro: handles_ok_same)
  qed
  with handles_okD assms(4) show ?thesis by blast
qed

theorem server_keeps_table_witness:
  "\<exists>m' meter' w'. udp_server_test 3 demo_pool demo_env demo_ue stop_io demo_sched [Sub_failed, Io_evt_rx 0]
       (demo_server\<lparr>rx_buf := [0], session_index_by_vpp_handles := [3 \<mapsto> 0]\<rparr>, meter0, ([5], [], []))
         = Some (m', meter', w') \<and> pool_live demo_pool (sessions m') 0"
proof -
  let ?m = "demo_server\<lparr>rx_buf := [0], session_index_by_vpp_handles := [3 \<mapsto> 0]\<rparr>"
  obtain m' meter' where r: "udp_server_test 3 demo_pool demo_env demo_ue stop_io demo_sched
      [Sub_failed, Io_evt_rx 0] (?m, meter0, ([5], [], [])) = Some (m', meter', ([], [5], [5]))"
    and t: "session_index_by_vpp_handles m' = [3 \<mapsto> 0]"
    by (metis stop_server_run numeral_3_eq_3)
  have ok: "handles_ok demo_pool ?m"
    by (simp add: handles_ok_def demo_server_def udp_echo_main_zero_def demo_pool_def zero_session_def)
  have "session_index_by_vpp_handles m' 3 = Some 0" by (simp add: t)
  from server_keeps_table [OF demo_pool_laws ok r this] r show ?thesis by auto
qed

section \<open>The configuration\<close>

lemma main_option_fields:
  "run_steps main_option opts c = Some c' \<Longrightarrow>
     is_connected (cfg_main c') = is_connected (cfg_main c) \<and> bytes_sent (cfg_main c') = bytes_sent (cfg_main c) \<and>
     connect_test_data (cfg_main c') = connect_test_data (cfg_main c) \<and>
     sessions (cfg_main c') = sessions (cfg_main c) \<and> state (cfg_main c') = state (cfg_main c)"
proof (induction opts arbitrary: c)
  case (Cons x xs)
  then show ?case by (cases x) fastforce+
qed simp

text \<open>The sizes on the command line. \<open>mbytes n\<close> is exactly \<open>n\<close> mebibytes whatever \<open>n\<close>; the
  shifts of the segment and fifo sizes are taken in 32 bits, so a segment size in gibibytes that
  is a multiple of four becomes 0.\<close>

theorem option_sizes:
  "map_option (\<lambda>c. unat (bytes_to_send (cfg_main c))) (main_option (Opt_mbytes n) c) = Some (unat n * 2 ^ 20) \<and>
   map_option (\<lambda>c. unat (configured_segment_size (cfg_main c))) (main_option (Opt_segment_G n) c)
     = Some (unat n * 2 ^ 30 mod 2 ^ 32) \<and>
   map_option (\<lambda>c. unat (configured_segment_size (cfg_main c))) (main_option (Opt_segment_M n) c)
     = Some (unat n * 2 ^ 20 mod 2 ^ 32) \<and>
   map_option (\<lambda>c. unat (fifo_size (cfg_main c))) (main_option (Opt_fifo_size n) c)
     = Some (unat n * 2 ^ 10 mod 2 ^ 32)"
proof -
  have "unat n < 2 ^ LENGTH(32)" by (rule unsigned_less)
  then have "unat (push_bit 20 (ucast n :: u64)) = unat n * 2 ^ 20"
    by (simp add: push_bit_eq_mult unat_word_ariths unat_up_ucast)
  then show ?thesis
    by (simp add: push_bit_eq_mult unat_word_ariths mult.commute)
qed

text \<open>No URI scheme selects a connected session. The program looks for the \<open>c\<close> of \<open>udpc\<close> in
  the fifth character of the URI, which is a slash in a \<open>udp\<close> URI and the colon in a \<open>udpc\<close> one,
  so \<open>is_connected\<close> is 0 for both, in either role.\<close>

theorem scheme_never_connected:
  assumes "cfg_uri c = [0x75, 0x64, 0x70, 0x3A, 0x2F, 0x2F] @ rest \<or>
           cfg_uri c = [0x75, 0x64, 0x70, 0x63, 0x3A, 0x2F, 0x2F] @ rest"
  shows "\<exists>m. main_role c = Some m \<and> is_connected m = 0"
  using assms by (auto simp: main_role_def Let_def)

theorem scheme_never_connected_witness:
  "\<exists>m. main_role (main_defaults 1 [] ()\<lparr>cfg_uri := [0x75, 0x64, 0x70, 0x63, 0x3A, 0x2F, 0x2F, 0x31]\<rparr>) = Some m \<and>
     is_connected m = 0"
  by (rule scheme_never_connected [where rest = "[0x31]"]) simp

section \<open>Preallocation\<close>

text \<open>A pool into which nothing was ever given back hands out its indices in order.\<close>

definition pool_in_order :: "'p session_pool \<Rightarrow> bool" where
  "pool_in_order P \<longleftrightarrow>
     (\<forall>p i p'. pool_valid P p \<longrightarrow> (\<forall>j. pool_live P p j \<longleftrightarrow> j < pool_elts P p) \<longrightarrow>
        pool_get P p = Some (i, p') \<longrightarrow> i = pool_elts P p)"

definition filled :: "'p session_pool \<Rightarrow> nat \<Rightarrow> 'p \<Rightarrow> bool" where
  "filled P n p \<longleftrightarrow> pool_valid P p \<and> pool_elts P p = n \<and> (\<forall>j. pool_live P p j \<longleftrightarrow> j < n)"

lemma prealloc_get_filled:
  assumes L: "pool_laws P" and O: "pool_in_order P"
  shows "filled P k p \<Longrightarrow> prealloc_get P n p = Some p' \<Longrightarrow> filled P (k + n) p'"
proof (induction n arbitrary: k p)
  case (Suc n)
  then obtain i p1 where g: "pool_get P p = Some (i, p1)" and
    r: "prealloc_get P n (pool_upd P p1 i (\<lambda>_. zero_session)) = Some p'" by (auto split: option.splits)
  have v: "pool_valid P p" using Suc.prems(1) by (simp add: filled_def)
  have i: "i = k" using O g Suc.prems(1) by (auto simp: pool_in_order_def filled_def)
  have "fresh_slot P p i (pool_upd P p1 i (\<lambda>_. zero_session))"
    by (rule fresh_slot_upd [OF L fresh_slot_get [OF L v g]])
  then have "filled P (Suc k) (pool_upd P p1 i (\<lambda>_. zero_session))"
    using Suc.prems(1) i by (auto simp: filled_def fresh_slot_def less_Suc_eq)
  from Suc.IH [OF this r] show ?case by simp
qed simp

lemma prealloc_put_empty:
  assumes L: "pool_laws P"
  shows "pool_valid P p \<Longrightarrow> pool_elts P p = length js \<Longrightarrow> distinct js \<Longrightarrow> (\<forall>j. pool_live P p j \<longleftrightarrow> j \<in> set js) \<Longrightarrow>
    filled P 0 (fold (\<lambda>i p. pool_put P p i) js p)"
proof (induction js arbitrary: p)
  case (Cons a js)
  have l: "pool_live P p a" using Cons.prems(4) by simp
  note put = put_session [OF L Cons.prems(1) l]
  have "pool_elts P (pool_put P p a) = length js" using put(4) Cons.prems(2) by simp
  with Cons.IH [OF put(1) this] Cons.prems(3,4) put(2) show ?case by auto
qed (simp add: filled_def)

text \<open>The preallocation leaves the session pool empty: whatever their number, the sessions taken
  are exactly the ones given back by index, none is lost and none given back twice.\<close>

theorem prealloc_leaves_empty:
  assumes "pool_laws P" and "pool_in_order P" and "filled P 0 p" and "prealloc P n p = Some p'"
  shows "pool_elts P p' = 0 \<and> (\<forall>j. \<not> pool_live P p' j)"
proof -
  from assms(4) obtain q where q: "prealloc_get P n p = Some q" and p': "p' = prealloc_put P n q"
    by (auto simp: prealloc_def)
  have "filled P n q" using prealloc_get_filled [OF assms(1-3) q] by simp
  then have "filled P 0 p'"
    unfolding p' prealloc_put_def by (intro prealloc_put_empty [OF assms(1)]) (auto simp: filled_def)
  then show ?thesis by (simp add: filled_def)
qed

lemma demo_free_used: "j < demo_free p \<Longrightarrow> fst (p ! j)"
proof (induction p arbitrary: j rule: demo_free.induct)
  case (2 b s p)
  then show ?case by (cases j) (auto split: if_splits)
qed simp

lemma demo_in_order: "pool_in_order demo_pool"
  unfolding pool_in_order_def
proof (intro allI impI)
  fix p :: demo_slots and i p'
  assume l: "\<forall>j. pool_live demo_pool p j \<longleftrightarrow> j < pool_elts demo_pool p" and g: "pool_get demo_pool p = Some (i, p')"
  let ?n = "pool_elts demo_pool p"
  have live: "j < length p \<and> fst (p ! j) \<longleftrightarrow> j < ?n" for j using l by (simp add: demo_pool_def)
  have i: "i = demo_free p" using g by (auto simp: demo_pool_def demo_get_def Let_def split: if_splits)
  have "\<not> demo_free p < ?n" using live demo_free_not_live by blast
  moreover have "\<not> ?n < demo_free p"
    using live [of ?n] demo_free_used [of ?n p] demo_free_le [of p] by auto
  ultimately show "i = ?n" using i by simp
qed

theorem prealloc_leaves_empty_witness:
  "\<exists>p'. prealloc demo_pool 2 [] = Some p' \<and> pool_elts demo_pool p' = 0"
proof -
  have "prealloc demo_pool 2 [] \<noteq> None"
    by (simp add: prealloc_def numeral_2_eq_2) (simp add: demo_pool_def demo_get_def)
  then obtain p' where p: "prealloc demo_pool 2 [] = Some p'" by auto
  have "filled demo_pool 0 []" by (simp add: filled_def demo_pool_def)
  from prealloc_leaves_empty [OF demo_pool_laws demo_in_order this p] p show ?thesis by blast
qed

end
