(* ===== verification/VtsPool.thy ===== *)
theory VtsPool
  imports Prelude
begin

text \<open>
  The VCL test server (\<open>src/src/vcl-test-server/main.c\<close>), part 1: its data and the connection
  pool of a worker (\<open>conn_pool_expand\<close>, \<open>conn_pool_alloc\<close>, \<open>conn_pool_free\<close>), which implements
  the slot pool interface.

  VPP's communication library and the test helpers of \<open>vcl_test.h\<close> are not in the repository:
  their operations are the fields of \<open>vcl_io\<close>, over a world of any type. Of the helpers' records
  only the fields the program uses are named, the rest is opaque.
\<close>

section \<open>Data\<close>

datatype test_type =
    VCL_TEST_TYPE_NONE | VCL_TEST_TYPE_ECHO | VCL_TEST_TYPE_UNI | VCL_TEST_TYPE_BI
  | VCL_TEST_TYPE_EXIT | Unknown_type u32

record vcl_cfg =
  magic :: u32
  test :: test_type
  ctrl_handle :: u32
  total_bytes :: u64
  rxbuf_size :: u64
  txbuf_size :: u64
  num_writes :: u64
  verbose :: u32
  cfg_rest :: "u8 list"

type_synonym timespec = "int \<times> int"

record vcl_stats =
  rx_bytes :: u64
  stop :: timespec
  start :: timespec
  stats_rest :: "u64 list"

definition zero_stats :: vcl_stats where
  "zero_stats = \<lparr>rx_bytes = 0, stop = (0, 0), start = (0, 0), stats_rest = replicate 4 0\<rparr>"

text \<open>\<open>vppcom_data_segments_t\<close> holds two segments; a segment is its bytes (\<open>data\<close>, \<open>len\<close>).
  \<open>endpt_ip\<close> is the slot whose \<open>ip\<close> array the endpoint of a slot points to.\<close>

type_synonym segments = "u8 list \<times> u8 list"

record conn =
  is_alloc :: u8
  fd :: int
  buf :: "u8 list"
  buf_size :: u32
  cfg :: vcl_cfg
  stats :: vcl_stats
  endpt_ip :: "nat option"
  ip :: "u8 list"
  ds :: segments

text \<open>An epoll event: its flags and its 64 bit datum, whose low half is \<open>data.u32\<close>.\<close>

record epoll_event =
  events :: u32
  ev_data :: u64

abbreviation (input) EPOLLIN :: u32 where "EPOLLIN \<equiv> 0x1"
abbreviation (input) EPOLLHUP :: u32 where "EPOLLHUP \<equiv> 0x10"
abbreviation (input) EPOLLRDHUP :: u32 where "EPOLLRDHUP \<equiv> 0x2000"

record worker =
  wrk_index :: u32
  listen_fd :: int
  epfd :: int
  wait_events :: "epoll_event list"
  conn_pool_size :: nat
  conn_pool :: "conn list"
  nfds :: int

datatype proto = VPPCOM_PROTO_TCP | VPPCOM_PROTO_UDP | VPPCOM_PROTO_TLS

text \<open>An endpoint: whether it is IPv4, the address bytes \<open>ip\<close> points to, the port.\<close>

record endpt =
  is_ip4 :: u8
  ep_ip :: "u8 list"
  ep_port :: u16

text \<open>What a dump is titled with.\<close>

datatype dump_tag = Server_results | Server_fd_results int

text \<open>The library. \<open>stats\<close> of \<open>vcl_test_write\<close> may be absent (\<open>NULL\<close>). The last two fields are
  observers, used only to state laws: the descriptors an epoll instance watches, each with its
  datum, and the bytes written to a descriptor.\<close>

record 'w vcl_io =
  realloc_ok :: "nat \<Rightarrow> 'w \<Rightarrow> bool \<times> 'w"
  vcl_test_cfg_init :: vcl_cfg
  vcl_test_buf_alloc :: "vcl_cfg \<Rightarrow> u8 list \<Rightarrow> u32 \<Rightarrow> 'w \<Rightarrow> vcl_cfg \<times> u8 list \<times> u32 \<times> 'w"
  vcl_test_write :: "int \<Rightarrow> u8 list \<Rightarrow> vcl_stats option \<Rightarrow> u32 \<Rightarrow> 'w \<Rightarrow> int \<times> vcl_stats option \<times> 'w"
  vcl_test_read :: "int \<Rightarrow> u32 \<Rightarrow> vcl_stats \<Rightarrow> 'w \<Rightarrow> int \<times> u8 list \<times> vcl_stats \<times> 'w"
  vcl_test_read_ds :: "int \<Rightarrow> vcl_stats \<Rightarrow> 'w \<Rightarrow> int \<times> segments \<times> vcl_stats \<times> 'w"
  vcl_test_stats_accumulate :: "vcl_stats \<Rightarrow> vcl_stats \<Rightarrow> vcl_stats"
  vcl_test_stats_dump :: "dump_tag \<Rightarrow> vcl_stats \<Rightarrow> bool \<Rightarrow> bool \<Rightarrow> u32 \<Rightarrow> 'w \<Rightarrow> 'w"
  vcl_comp_tspec :: "timespec \<Rightarrow> timespec \<Rightarrow> int"
  vcl_delay_disconnect :: int
  clock_realtime :: "'w \<Rightarrow> timespec \<times> 'w"
  cfg_of_bytes :: "u8 list \<Rightarrow> vcl_cfg"
  cfg_bytes :: "vcl_cfg \<Rightarrow> u8 list"
  cfg_size :: nat
  ctrl_magic :: u32
  vppcom_data_segment_copy :: "segments \<Rightarrow> nat \<Rightarrow> u8 list"
  vppcom_session_accept :: "int \<Rightarrow> u8 list \<Rightarrow> 'w \<Rightarrow> int \<times> u8 list \<times> 'w"
  vppcom_session_close :: "int \<Rightarrow> 'w \<Rightarrow> 'w"
  vppcom_session_free_segments :: "int \<Rightarrow> segments \<Rightarrow> 'w \<Rightarrow> 'w"
  vppcom_session_read_segments :: "int \<Rightarrow> 'w \<Rightarrow> int \<times> segments \<times> 'w"
  vppcom_get_nread :: "int \<Rightarrow> 'w \<Rightarrow> int"
  vppcom_epoll_create :: "'w \<Rightarrow> int \<times> 'w"
  vppcom_epoll_ctl_add :: "int \<Rightarrow> int \<Rightarrow> epoll_event \<Rightarrow> 'w \<Rightarrow> int \<times> 'w"
  vppcom_epoll_wait :: "int \<Rightarrow> nat \<Rightarrow> 'w \<Rightarrow> int \<times> epoll_event list \<times> 'w"
  errno_connreset :: "'w \<Rightarrow> bool"
  vppcom_worker_register :: "'w \<Rightarrow> int \<times> 'w"
  vppcom_session_create :: "proto \<Rightarrow> 'w \<Rightarrow> int \<times> 'w"
  vppcom_session_tls_add_cert :: "int \<Rightarrow> 'w \<Rightarrow> 'w"
  vppcom_session_tls_add_key :: "int \<Rightarrow> 'w \<Rightarrow> 'w"
  vppcom_session_bind :: "int \<Rightarrow> endpt \<Rightarrow> 'w \<Rightarrow> int \<times> 'w"
  vppcom_session_listen :: "int \<Rightarrow> nat \<Rightarrow> 'w \<Rightarrow> int \<times> 'w"
  max_test_sess :: nat
  max_epoll_events :: nat
  sizeof_dgram_hdr :: u64
  clib_cpu_time_now :: "'w \<Rightarrow> u64 \<times> 'w"
  os_cpu_clock_frequency :: real
  f64_round :: "real \<Rightarrow> real"
  watched :: "'w \<Rightarrow> (int \<times> u64) list"
  written :: "int \<Rightarrow> 'w \<Rightarrow> u8 list"

section \<open>The pool\<close>

text \<open>A slot as \<open>conn_pool_expand\<close> leaves it: cleared, with an initial configuration and a receive
  buffer for it.\<close>

definition fresh_conn :: "'w vcl_io \<Rightarrow> 'w \<Rightarrow> conn \<times> 'w" where
  "fresh_conn V w =
     (case vcl_test_buf_alloc V (vcl_test_cfg_init V) [] 0 w of
        (c, b, n, w) \<Rightarrow>
          (\<lparr>is_alloc = 0, fd = 0, buf = b, buf_size = n, cfg = c\<lparr>txbuf_size := rxbuf_size c\<rparr>,
            stats = zero_stats, endpt_ip = None, ip = replicate 16 0, ds = ([], [])\<rparr>, w))"

fun fresh_conns :: "nat \<Rightarrow> 'w vcl_io \<Rightarrow> 'w \<Rightarrow> conn list \<times> 'w" where
  "fresh_conns 0 V w = ([], w)"
| "fresh_conns (Suc n) V w =
     (case fresh_conn V w of
        (c, w) \<Rightarrow> (case fresh_conns n V w of (cs, w) \<Rightarrow> (c # cs, w)))"

definition conn_pool_expand :: "'w vcl_io \<Rightarrow> nat \<Rightarrow> worker \<times> 'w \<Rightarrow> worker \<times> 'w" where
  "conn_pool_expand V expand_size st =
     (case st of (wrk, w) \<Rightarrow>
        (let new_size = conn_pool_size wrk + expand_size
         in case realloc_ok V new_size w of
              (False, w) \<Rightarrow> (wrk, w)
            | (True, w) \<Rightarrow>
                (case fresh_conns (new_size - conn_pool_size wrk) V w of
                   (cs, w) \<Rightarrow>
                     (wrk\<lparr>conn_pool := conn_pool wrk @ cs, conn_pool_size := new_size\<rparr>, w))))"

text \<open>The search for a slot that is not in use: the first below \<open>n\<close>.\<close>

fun find_free :: "conn list \<Rightarrow> nat \<Rightarrow> nat option" where
  "find_free cs 0 = None"
| "find_free [] (Suc n) = None"
| "find_free (c # cs) (Suc n) =
     (if is_alloc c = 0 then Some 0 else map_option Suc (find_free cs n))"

definition take_conn :: "nat \<Rightarrow> worker \<Rightarrow> worker" where
  "take_conn i wrk =
     wrk\<lparr>conn_pool := (conn_pool wrk)[i := (conn_pool wrk ! i)\<lparr>endpt_ip := Some i, is_alloc := 1\<rparr>]\<rparr>"

definition conn_pool_alloc :: "'w vcl_io \<Rightarrow> worker \<times> 'w \<Rightarrow> nat option \<times> worker \<times> 'w" where
  "conn_pool_alloc V st =
     (case st of (wrk, w) \<Rightarrow>
        (case find_free (conn_pool wrk) (conn_pool_size wrk) of
           Some i \<Rightarrow> (Some i, take_conn i wrk, w)
         | None \<Rightarrow>
             (case conn_pool_expand V (2 * conn_pool_size wrk) (wrk, w) of
                (wrk, w) \<Rightarrow>
                  (case find_free (conn_pool wrk) (conn_pool_size wrk) of
                     Some i \<Rightarrow> (Some i, take_conn i wrk, w)
                   | None \<Rightarrow> (None, wrk, w)))))"

definition upd_conn :: "worker \<Rightarrow> nat \<Rightarrow> (conn \<Rightarrow> conn) \<Rightarrow> worker" where
  "upd_conn wrk i f = wrk\<lparr>conn_pool := (conn_pool wrk)[i := f (conn_pool wrk ! i)]\<rparr>"

definition conn_pool_free :: "worker \<Rightarrow> nat \<Rightarrow> worker" where
  "conn_pool_free wrk i = upd_conn wrk i (\<lambda>c. c\<lparr>fd := 0, is_alloc := 0\<rparr>)"

section \<open>The pool keeps the slot pool contract\<close>

text \<open>The interface's operations, on a worker and the world.\<close>

definition conn_live :: "worker \<times> 'w \<Rightarrow> nat \<Rightarrow> bool" where
  "conn_live st i \<longleftrightarrow> i < length (conn_pool (fst st)) \<and> is_alloc (conn_pool (fst st) ! i) \<noteq> 0"

definition conn_elts :: "worker \<times> 'w \<Rightarrow> nat" where
  "conn_elts st = length (filter (\<lambda>c. is_alloc c \<noteq> 0) (conn_pool (fst st)))"

definition conn_elt :: "worker \<times> 'w \<Rightarrow> nat \<Rightarrow> conn" where
  "conn_elt st i = conn_pool (fst st) ! i"

definition conn_get :: "'w vcl_io \<Rightarrow> worker \<times> 'w \<Rightarrow> (nat \<times> worker \<times> 'w) option" where
  "conn_get V st = (case conn_pool_alloc V st of (None, _) \<Rightarrow> None | (Some i, st') \<Rightarrow> Some (i, st'))"

definition conn_put :: "worker \<times> 'w \<Rightarrow> nat \<Rightarrow> worker \<times> 'w" where
  "conn_put st i = (conn_pool_free (fst st) i, snd st)"

definition conn_upd :: "worker \<times> 'w \<Rightarrow> nat \<Rightarrow> (conn \<Rightarrow> conn) \<Rightarrow> worker \<times> 'w" where
  "conn_upd st i f = (upd_conn (fst st) i f, snd st)"

definition pool_ok :: "worker \<times> 'w \<Rightarrow> bool" where
  "pool_ok st \<longleftrightarrow> length (conn_pool (fst st)) = conn_pool_size (fst st)"

definition keeps_mark :: "(conn \<Rightarrow> conn) \<Rightarrow> bool" where
  "keeps_mark f \<longleftrightarrow> (\<forall>c. (is_alloc (f c) = 0) = (is_alloc c = 0))"

lemma find_free_Some:
  "find_free cs n = Some i \<Longrightarrow> i < length cs \<and> i < n \<and> is_alloc (cs ! i) = 0"
  by (induction cs n arbitrary: i rule: find_free.induct) (auto split: if_splits)

lemma find_free_None:
  "find_free cs (length cs) = None \<Longrightarrow> i < length cs \<Longrightarrow> is_alloc (cs ! i) \<noteq> 0"
proof (induction cs arbitrary: i)
  case (Cons c cs)
  then show ?case by (cases i) (auto split: if_splits)
qed simp

lemma fresh_conns_free:
  "fresh_conns n V w = (cs, w') \<Longrightarrow> length cs = n \<and> (\<forall>c \<in> set cs. is_alloc c = 0)"
proof (induction n arbitrary: w cs w')
  case (Suc n)
  obtain c w1 where c: "fresh_conn V w = (c, w1)" by fastforce
  obtain cs1 w2 where cs1: "fresh_conns n V w1 = (cs1, w2)" by fastforce
  have "is_alloc c = 0" using c by (auto simp: fresh_conn_def split: prod.splits)
  with Suc.IH [OF cs1] Suc.prems c cs1 show ?case by auto
qed simp

text \<open>Growing appends slots that are not in use.\<close>

lemma expand_shape:
  assumes "conn_pool_expand V n (wrk, w) = (wrk', w')"
  shows "wrk' = wrk \<or> (\<exists>cs. wrk' = wrk\<lparr>conn_pool := conn_pool wrk @ cs, conn_pool_size := conn_pool_size wrk + n\<rparr> \<and>
    length cs = n \<and> (\<forall>c \<in> set cs. is_alloc c = 0))"
  using assms fresh_conns_free
  by (fastforce simp: conn_pool_expand_def Let_def split: prod.splits bool.splits)

lemma alloc_shape:
  assumes "pool_ok st" and "conn_get V st = Some (i, st')"
  shows "\<exists>cs. (\<forall>c \<in> set cs. is_alloc c = 0) \<and> i < length (conn_pool (fst st) @ cs) \<and>
    is_alloc ((conn_pool (fst st) @ cs) ! i) = 0 \<and>
    conn_pool (fst st') = (conn_pool (fst st) @ cs)
      [i := ((conn_pool (fst st) @ cs) ! i)\<lparr>endpt_ip := Some i, is_alloc := 1\<rparr>] \<and>
    conn_pool_size (fst st') = conn_pool_size (fst st) + length cs \<and>
    nfds (fst st') = nfds (fst st) \<and> listen_fd (fst st') = listen_fd (fst st) \<and> epfd (fst st') = epfd (fst st)"
proof -
  obtain wrk w where st: "st = (wrk, w)" by fastforce
  show ?thesis
  proof (cases "find_free (conn_pool wrk) (conn_pool_size wrk)")
    case (Some j)
    with assms(2) st find_free_Some [OF Some] show ?thesis
      by (intro exI [of _ "[]"]) (auto simp: conn_get_def conn_pool_alloc_def take_conn_def)
  next
    case None
    obtain wrk1 w1 where e: "conn_pool_expand V (2 * conn_pool_size wrk) (wrk, w) = (wrk1, w1)" by fastforce
    with assms(2) st None obtain f: "find_free (conn_pool wrk1) (conn_pool_size wrk1) = Some i"
      and st': "st' = (take_conn i wrk1, w1)"
      by (auto simp: conn_get_def conn_pool_alloc_def split: option.splits)
    from expand_shape [OF e] None f obtain cs where
      cs: "wrk1 = wrk\<lparr>conn_pool := conn_pool wrk @ cs, conn_pool_size := conn_pool_size wrk + 2 * conn_pool_size wrk\<rparr>"
      "length cs = 2 * conn_pool_size wrk" "\<forall>c \<in> set cs. is_alloc c = 0" by auto
    with find_free_Some [OF f] st st' show ?thesis
      by (intro exI [of _ cs]) (auto simp: take_conn_def)
  qed
qed

lemma filter_alloc_append:
  "\<forall>c \<in> set cs. is_alloc c = 0 \<Longrightarrow> filter (\<lambda>c. is_alloc c \<noteq> 0) cs = []"
  by (induction cs) auto

interpretation conns: slot_store conn_live conn_elts conn_elt "conn_get V" conn_put pool_ok conn_upd keeps_mark
  for V :: "'w vcl_io"
proof unfold_locales
  fix p p' :: "worker \<times> 'w" and i j f
  show "pool_ok p'" if v: "pool_ok p" and g: "conn_get V p = Some (i, p')"
    using alloc_shape [OF v g] v by (auto simp: pool_ok_def)
  show "\<not> conn_live p i" if v: "pool_ok p" and g: "conn_get V p = Some (i, p')"
    using alloc_shape [OF v g] by (auto simp: conn_live_def nth_append split: if_splits)
  show "conn_live p' j \<longleftrightarrow> j = i \<or> conn_live p j" if v: "pool_ok p" and g: "conn_get V p = Some (i, p')"
    using alloc_shape [OF v g] by (auto simp: conn_live_def nth_append nth_list_update split: if_splits)
  show "conn_elt p' j = conn_elt p j" if v: "pool_ok p" and g: "conn_get V p = Some (i, p')" and "conn_live p j"
    using alloc_shape [OF v g] \<open>conn_live p j\<close>
    by (auto simp: conn_live_def conn_elt_def nth_append nth_list_update split: if_splits)
  show "conn_elts p' = Suc (conn_elts p)" if v: "pool_ok p" and g: "conn_get V p = Some (i, p')"
  proof -
    from alloc_shape [OF v g] obtain cs where c: "\<forall>c \<in> set cs. is_alloc c = 0"
      "i < length (conn_pool (fst p) @ cs)" "is_alloc ((conn_pool (fst p) @ cs) ! i) = 0"
      "conn_pool (fst p') = (conn_pool (fst p) @ cs)
        [i := ((conn_pool (fst p) @ cs) ! i)\<lparr>endpt_ip := Some i, is_alloc := 1\<rparr>]" by blast
    then show ?thesis
      using length_filter_update [OF c(2), of "\<lambda>c. is_alloc c \<noteq> 0"
          "((conn_pool (fst p) @ cs) ! i)\<lparr>endpt_ip := Some i, is_alloc := 1\<rparr>"] filter_alloc_append [OF c(1)]
      by (simp add: conn_elts_def)
  qed
  show "pool_ok (conn_put p i)" if "pool_ok p" "conn_live p i"
    using that by (simp add: pool_ok_def conn_put_def conn_pool_free_def upd_conn_def)
  show "conn_live (conn_put p i) j \<longleftrightarrow> j \<noteq> i \<and> conn_live p j" if "pool_ok p" "conn_live p i"
    using that by (auto simp: conn_live_def conn_put_def conn_pool_free_def upd_conn_def nth_list_update)
  show "conn_elt (conn_put p i) j = conn_elt p j" if "pool_ok p" "conn_live p i" "j \<noteq> i"
    using that by (simp add: conn_elt_def conn_put_def conn_pool_free_def upd_conn_def)
  show "Suc (conn_elts (conn_put p i)) = conn_elts p" if "pool_ok p" "conn_live p i"
    using that length_filter_update [of i "conn_pool (fst p)" "\<lambda>c. is_alloc c \<noteq> 0"
        "(conn_pool (fst p) ! i)\<lparr>fd := 0, is_alloc := 0\<rparr>"]
    by (simp add: conn_elts_def conn_live_def conn_put_def conn_pool_free_def upd_conn_def)
  show "pool_ok (conn_upd p i f)" if "pool_ok p" "keeps_mark f"
    using that by (simp add: pool_ok_def conn_upd_def upd_conn_def)
  show "conn_live (conn_upd p i f) j \<longleftrightarrow> conn_live p j" if "pool_ok p" "keeps_mark f"
    using that by (cases "j = i"; cases "i < length (conn_pool (fst p))")
      (simp_all add: conn_live_def conn_upd_def upd_conn_def keeps_mark_def list_update_beyond)
  show "conn_elts (conn_upd p i f) = conn_elts p" if "pool_ok p" "keeps_mark f"
    using that length_filter_update [of i "conn_pool (fst p)" "\<lambda>c. is_alloc c \<noteq> 0" "f (conn_pool (fst p) ! i)"]
    by (cases "i < length (conn_pool (fst p))")
      (simp_all add: conn_elts_def conn_upd_def upd_conn_def keeps_mark_def list_update_beyond split: if_splits)
  show "conn_elt (conn_upd p i f) i = f (conn_elt p i)" if "pool_ok p" "keeps_mark f" "conn_live p i"
    using that by (simp add: conn_live_def conn_elt_def conn_upd_def upd_conn_def)
  show "conn_elt (conn_upd p i f) j = conn_elt p j" if "pool_ok p" "keeps_mark f" "j \<noteq> i"
    using that by (simp add: conn_elt_def conn_upd_def upd_conn_def)
qed

end
