(* ===== verification/VtsConn.thy ===== *)
theory VtsConn
  imports VtsPool
begin

text \<open>
  The VCL test server (\<open>src/src/vcl-test-server/main.c\<close>), part 2: what a worker does with one
  connection: reading, configuration messages, starting and stopping a test, reflecting, echoing,
  and accepting a client.

  \<open>rx_cfg\<close> points to the start of the connection's own buffer: a write through it is a write
  into the buffer (\<open>store_cfg\<close>). Log lines are left out; dumps of statistics are kept. \<open>None\<close> is
  an access outside a buffer.
\<close>

section \<open>Reading\<close>

definition vts_conn_read :: "'w vcl_io \<Rightarrow> bool \<Rightarrow> conn \<times> 'w \<Rightarrow> (int \<times> conn \<times> 'w) option" where
  "vts_conn_read V use_ds cw =
     (case cw of (c, w) \<Rightarrow>
        if use_ds then
          (case vcl_test_read_ds V (fd c) (stats c) w of
             (n, d, s, w) \<Rightarrow> Some (n, c\<lparr>ds := d, stats := s\<rparr>, w))
        else
          (case vcl_test_read V (fd c) (buf_size c) (stats c) w of
             (n, bs, s, w) \<Rightarrow>
               map_option (\<lambda>b. (n, c\<lparr>buf := b, stats := s\<rparr>, w)) (fill bs (buf c))))"

definition vts_conn_expect_config :: "conn \<Rightarrow> bool" where
  "vts_conn_expect_config c \<longleftrightarrow>
     test (cfg c) = VCL_TEST_TYPE_ECHO \<or> rx_bytes (stats c) < 128 \<or>
     rx_bytes (stats c) > total_bytes (cfg c)"

definition vts_conn_read_config :: "'w vcl_io \<Rightarrow> bool \<Rightarrow> conn \<Rightarrow> (vcl_cfg \<times> conn) option" where
  "vts_conn_read_config V use_ds c =
     (case (if use_ds then fill (vppcom_data_segment_copy V (ds c) (cfg_size V)) (buf c) else Some (buf c)) of
        None \<Rightarrow> None
      | Some b \<Rightarrow>
          if length b < cfg_size V then None
          else Some (cfg_of_bytes V (take (cfg_size V) b), c\<lparr>buf := b\<rparr>))"

definition vts_conn_has_ascii :: "bool \<Rightarrow> conn \<Rightarrow> bool option" where
  "vts_conn_has_ascii use_ds c =
     (case (if use_ds then fst (ds c) else buf c) of [] \<Rightarrow> None | b # _ \<Rightarrow> Some (b < 128))"

section \<open>Configuration\<close>

definition sync_config_and_reply :: "'w vcl_io \<Rightarrow> vcl_cfg \<Rightarrow> conn \<times> 'w \<Rightarrow> conn \<times> 'w" where
  "sync_config_and_reply V rx_cfg cw =
     (case cw of (c, w) \<Rightarrow>
        (case vcl_test_buf_alloc V rx_cfg (buf c) (buf_size c) w of
           (g, b, n, w) \<Rightarrow>
             (let c = c\<lparr>cfg := g\<lparr>txbuf_size := rxbuf_size g\<rparr>, buf := b, buf_size := n\<rparr>
              in case vcl_test_write V (fd c) (cfg_bytes V (cfg c)) None (verbose (cfg c)) w of
                   (_, _, w) \<Rightarrow> (c, w))))"

definition store_cfg :: "'w vcl_io \<Rightarrow> vcl_cfg \<Rightarrow> u8 list \<Rightarrow> u8 list" where
  "store_cfg V g b = cfg_bytes V g @ drop (length (cfg_bytes V g)) b"

definition upd_stats :: "worker \<Rightarrow> nat \<Rightarrow> (vcl_stats \<Rightarrow> vcl_stats) \<Rightarrow> worker" where
  "upd_stats wrk i f = upd_conn wrk i (\<lambda>c. c\<lparr>stats := f (stats c)\<rparr>)"

text \<open>One turn of the loop over the pool: slot \<open>j\<close> is counted in for the control connection \<open>i\<close>.
  The two may be the same slot.\<close>

definition stop_slot :: "'w vcl_io \<Rightarrow> bool \<Rightarrow> nat \<Rightarrow> nat \<Rightarrow> worker \<times> 'w \<Rightarrow> worker \<times> 'w" where
  "stop_slot V is_bi i j st =
     (case st of (wrk, w) \<Rightarrow>
        if ctrl_handle (cfg (conn_pool wrk ! j)) \<noteq> word_of_int (fd (conn_pool wrk ! i)) then (wrk, w)
        else
          (let wrk = upd_stats wrk i (\<lambda>s.
                       vcl_test_stats_accumulate V s (stats (conn_pool wrk ! j)));
               tc = conn_pool wrk ! j;
               wrk = (if vcl_comp_tspec V (stop (stats (conn_pool wrk ! i))) (stop (stats tc)) < 0
                      then upd_stats wrk i (\<lambda>s. s\<lparr>stop := stop (stats tc)\<rparr>)
                      else wrk);
               wrk = upd_stats wrk i (\<lambda>s. s\<lparr>stop :=
                       (fst (stop s) - vcl_delay_disconnect V, snd (stop s))\<rparr>);
               tc = conn_pool wrk ! j;
               v = verbose (cfg (conn_pool wrk ! i));
               w = (if v \<noteq> 0 then vcl_test_stats_dump V (Server_fd_results (fd tc)) (stats tc) True is_bi v w
                    else w)
           in (wrk, w)))"

definition on_conn :: "(conn \<times> 'w \<Rightarrow> conn \<times> 'w) \<Rightarrow> nat \<Rightarrow> worker \<times> 'w \<Rightarrow> worker \<times> 'w" where
  "on_conn f i st =
     (case st of (wrk, w) \<Rightarrow> (case f (conn_pool wrk ! i, w) of (c, w) \<Rightarrow> (upd_conn wrk i (\<lambda>_. c), w)))"

definition vts_server_start_stop :: "'w vcl_io \<Rightarrow> nat \<Rightarrow> vcl_cfg \<Rightarrow> worker \<times> 'w \<Rightarrow> worker \<times> 'w" where
  "vts_server_start_stop V i rx_cfg st =
     (let is_bi = (test rx_cfg = VCL_TEST_TYPE_BI);
          c = conn_pool (fst st) ! i
      in if ctrl_handle rx_cfg = word_of_int (fd c) then
           (let st = fold (stop_slot V is_bi i) [0..<conn_pool_size (fst st)] st;
                c = conn_pool (fst st) ! i;
                st = (fst st, vcl_test_stats_dump V Server_results (stats c) True is_bi (verbose (cfg c)) (snd st));
                st = on_conn (sync_config_and_reply V rx_cfg) i st
            in (upd_stats (fst st) i (\<lambda>_. zero_stats), snd st))
         else
           (let (rx_cfg, wrk) =
                  (if ctrl_handle rx_cfg = - 1 then
                     (let rx_cfg = rx_cfg\<lparr>ctrl_handle := word_of_int (fd c)\<rparr>
                      in (rx_cfg, upd_conn (fst st) i (\<lambda>c. c\<lparr>buf := store_cfg V rx_cfg (buf c)\<rparr>)))
                   else (rx_cfg, fst st));
                (wrk, w) = on_conn (sync_config_and_reply V rx_cfg) i (wrk, snd st);
                wrk = upd_stats wrk i (\<lambda>_. zero_stats)
            in case clock_realtime V w of
                 (t, w) \<Rightarrow> (upd_stats wrk i (\<lambda>s. s\<lparr>start := t\<rparr>), w)))"

text \<open>A message of the wrong size is answered with a configuration without a buffer.\<close>

definition refuse_cfg :: "'w vcl_io \<Rightarrow> conn \<times> 'w \<Rightarrow> conn \<times> 'w" where
  "refuse_cfg V cw =
     (case cw of (c, w) \<Rightarrow>
        (let c = c\<lparr>cfg := (cfg c)\<lparr>rxbuf_size := 0, num_writes := 0\<rparr>\<rparr>
         in case vcl_test_write V (fd c) (cfg_bytes V (cfg c)) None (verbose (cfg c)) w of (_, _, w) \<Rightarrow> (c, w)))"

definition vts_handle_cfg :: "'w vcl_io \<Rightarrow> nat \<Rightarrow> vcl_cfg \<Rightarrow> int \<Rightarrow> worker \<times> 'w \<Rightarrow> int \<times> worker \<times> 'w" where
  "vts_handle_cfg V i rx_cfg rx st =
     (if rx \<noteq> int (cfg_size V) then (- 1, on_conn (refuse_cfg V) i st)
      else
        (0, case test rx_cfg of
              VCL_TEST_TYPE_NONE \<Rightarrow> on_conn (sync_config_and_reply V rx_cfg) i st
            | VCL_TEST_TYPE_ECHO \<Rightarrow> on_conn (sync_config_and_reply V rx_cfg) i st
            | VCL_TEST_TYPE_BI \<Rightarrow> vts_server_start_stop V i rx_cfg st
            | VCL_TEST_TYPE_UNI \<Rightarrow> vts_server_start_stop V i rx_cfg st
            | VCL_TEST_TYPE_EXIT \<Rightarrow>
                (case clock_realtime V (snd st) of
                   (t, w) \<Rightarrow>
                     (let wrk = upd_stats (fst st) i (\<lambda>s. s\<lparr>stop := t\<rparr>);
                          w = vppcom_session_close V (fd (conn_pool wrk ! i)) w;
                          wrk = conn_pool_free wrk i
                      in (wrk\<lparr>nfds := nfds wrk - 1\<rparr>, w)))
            | Unknown_type _ \<Rightarrow> st))"

section \<open>Test data\<close>

text \<open>\<open>vcl_test_write\<close> of a stretch of memory, with the connection's statistics.\<close>

definition conn_write :: "'w vcl_io \<Rightarrow> u8 list \<Rightarrow> conn \<times> 'w \<Rightarrow> int \<times> conn \<times> 'w" where
  "conn_write V bs cw =
     (case cw of (c, w) \<Rightarrow>
        (case vcl_test_write V (fd c) bs (Some (stats c)) (verbose (cfg c)) w of
           (n, s, w) \<Rightarrow> (n, (case s of None \<Rightarrow> c | Some s \<Rightarrow> c\<lparr>stats := s\<rparr>), w)))"

text \<open>A bidirectional test sends back what it received.\<close>

definition reflect_data :: "'w vcl_io \<Rightarrow> bool \<Rightarrow> int \<Rightarrow> conn \<times> 'w \<Rightarrow> (conn \<times> 'w) option" where
  "reflect_data V use_ds rx cw =
     (if test (cfg (fst cw)) = VCL_TEST_TYPE_BI then
        (if use_ds then
           (case conn_write V (fst (ds (fst cw))) cw of
              (_, cw) \<Rightarrow>
                if snd (ds (fst cw)) \<noteq> [] then Some (snd (conn_write V (snd (ds (fst cw))) cw))
                else Some cw)
         else if nat rx > length (buf (fst cw)) then None
         else Some (snd (conn_write V (take (nat rx) (buf (fst cw))) cw)))
      else Some cw)"

definition note_stop :: "'w vcl_io \<Rightarrow> conn \<times> 'w \<Rightarrow> conn \<times> 'w" where
  "note_stop V cw =
     (case cw of (c, w) \<Rightarrow>
        if rx_bytes (stats c) \<ge> total_bytes (cfg c) then
          (case clock_realtime V w of (t, w) \<Rightarrow> (c\<lparr>stats := (stats c)\<lparr>stop := t\<rparr>\<rparr>, w))
        else (c, w))"

definition vts_server_rx :: "'w vcl_io \<Rightarrow> bool \<Rightarrow> int \<Rightarrow> conn \<times> 'w \<Rightarrow> (conn \<times> 'w) option" where
  "vts_server_rx V use_ds rx cw =
     map_option (\<lambda>(c, w). note_stop V (c, if use_ds then vppcom_session_free_segments V (fd c) (ds c) w else w))
       (reflect_data V use_ds rx cw)"

text \<open>Where the echo puts its terminator: the comparison is between unsigned 32 bit numbers.\<close>

definition echo_pos :: "int \<Rightarrow> u32 \<Rightarrow> nat" where
  "echo_pos rx bsize = (if (word_of_int rx :: u32) < bsize then nat rx else unat (bsize - 1))"

text \<open>\<open>strlen\<close>: the bytes before the first zero; without one it runs out of the buffer.\<close>

definition c_string :: "u8 list \<Rightarrow> u8 list option" where
  "c_string b = (if 0 \<in> set b then Some (takeWhile (\<lambda>x. x \<noteq> 0) b) else None)"

definition vts_server_echo :: "'w vcl_io \<Rightarrow> bool \<Rightarrow> int \<Rightarrow> conn \<times> 'w \<Rightarrow> (int \<times> conn \<times> 'w) option" where
  "vts_server_echo V use_ds rx cw =
     (case cw of (c, w) \<Rightarrow>
        (case (if use_ds then fill (vppcom_data_segment_copy V (ds c) (nat rx)) (buf c) else Some (buf c)) of
           None \<Rightarrow> None
         | Some b \<Rightarrow>
             (let pos = echo_pos rx (buf_size c)
              in if pos \<ge> length b then None
                 else
                   (let b = b[pos := 0]
                    in case c_string b of
                         None \<Rightarrow> None
                       | Some s \<Rightarrow> Some (conn_write V (s @ [0]) (c\<lparr>buf := b\<rparr>, w))))))"

section \<open>Accepting\<close>

definition vts_new_client :: "'w vcl_io \<Rightarrow> worker \<times> 'w \<Rightarrow> worker \<times> 'w" where
  "vts_new_client V st =
     (case conn_pool_alloc V st of
        (None, st) \<Rightarrow> st
      | (Some i, wrk, w) \<Rightarrow>
          (case vppcom_session_accept V (listen_fd wrk) (ip (conn_pool wrk ! i)) w of
             (client_fd, a, w) \<Rightarrow>
               (let wrk = upd_conn wrk i (\<lambda>c. c\<lparr>ip := a\<rparr>)
                in if client_fd < 0 then (wrk, w)
                   else
                     (let wrk = upd_conn wrk i (\<lambda>c. c\<lparr>fd := client_fd\<rparr>)
                      in case vppcom_epoll_ctl_add V (epfd wrk) client_fd
                                \<lparr>events = EPOLLIN, ev_data = word_of_nat i\<rparr> w of
                           (rv, w) \<Rightarrow>
                             if rv < 0 then (wrk, w) else (wrk\<lparr>nfds := nfds wrk + 1\<rparr>, w)))))"

end
