(* ===== verification/VtsTest.thy ===== *)
theory VtsTest
  imports VtsConn
begin

text \<open>
  What the operations of \<open>VtsConn\<close> promise for one connection of the VCL test server: the echo
  stays in its buffer, a test that starts is a test the server recognises when it stops, the
  statistics of a stopped test, the answer to a malformed message, the slots a client takes.
\<close>

section \<open>The pool under writes to a slot\<close>

lemma upd_conn_simps [simp]:
  "conn_pool_size (upd_conn wrk i f) = conn_pool_size wrk"
  "nfds (upd_conn wrk i f) = nfds wrk" "listen_fd (upd_conn wrk i f) = listen_fd wrk"
  "epfd (upd_conn wrk i f) = epfd wrk" "wait_events (upd_conn wrk i f) = wait_events wrk"
  "wrk_index (upd_conn wrk i f) = wrk_index wrk"
  "length (conn_pool (upd_conn wrk i f)) = length (conn_pool wrk)"
  by (simp_all add: upd_conn_def)

lemma upd_conn_nth:
  "j < length (conn_pool wrk) \<Longrightarrow>
     conn_pool (upd_conn wrk i f) ! j = (if j = i then f (conn_pool wrk ! i) else conn_pool wrk ! j)"
  by (simp add: upd_conn_def)

lemma upd_conn_same [simp]:
  "i < length (conn_pool wrk) \<Longrightarrow> conn_pool (upd_conn wrk i f) ! i = f (conn_pool wrk ! i)"
  by (simp add: upd_conn_nth)

lemma upd_conn_other [simp]:
  "j \<noteq> i \<Longrightarrow> conn_pool (upd_conn wrk i f) ! j = conn_pool wrk ! j"
  by (simp add: upd_conn_def)

lemma upd_conn_upd [simp]: "upd_conn (upd_conn wrk i f) i g = upd_conn wrk i (g \<circ> f)"
  by (cases "i < length (conn_pool wrk)") (simp_all add: upd_conn_def list_update_beyond)

section \<open>The echo\<close>

lemma unat_of_int32: "0 \<le> r \<Longrightarrow> r < 2 ^ 31 \<Longrightarrow> unat (word_of_int r :: u32) = nat r"
  by (simp add: unat_eq_nat_uint unsigned_of_int take_bit_eq_mod)

lemma takeWhile_update_zero:
  "p < length b \<Longrightarrow> takeWhile (\<lambda>x. x \<noteq> 0) (b[p := 0]) = takeWhile (\<lambda>x. x \<noteq> 0) (take p b)"
  for b :: "u8 list"
proof (induction b arbitrary: p)
  case (Cons x b)
  then show ?case by (cases p) auto
qed simp


section \<open>Stopping a test\<close>

text \<open>What counting in does to the control connection's statistics: for another slot and for the
  control connection itself.\<close>

definition count_other :: "'w vcl_io \<Rightarrow> vcl_stats \<Rightarrow> vcl_stats \<Rightarrow> vcl_stats" where
  "count_other V b a =
     (let a = vcl_test_stats_accumulate V a b;
          a = (if vcl_comp_tspec V (stop a) (stop b) < 0 then a\<lparr>stop := stop b\<rparr> else a)
      in a\<lparr>stop := (fst (stop a) - vcl_delay_disconnect V, snd (stop a))\<rparr>)"

definition count_self :: "'w vcl_io \<Rightarrow> vcl_stats \<Rightarrow> vcl_stats" where
  "count_self V a =
     (let a = vcl_test_stats_accumulate V a a
      in a\<lparr>stop := (fst (stop a) - vcl_delay_disconnect V, snd (stop a))\<rparr>)"

definition in_test :: "worker \<Rightarrow> nat \<Rightarrow> nat \<Rightarrow> bool" where
  "in_test wrk i j \<longleftrightarrow> ctrl_handle (cfg (conn_pool wrk ! j)) = word_of_int (fd (conn_pool wrk ! i))"

definition counted :: "'w vcl_io \<Rightarrow> worker \<Rightarrow> nat \<Rightarrow> nat \<Rightarrow> vcl_stats \<Rightarrow> vcl_stats" where
  "counted V wrk i j a =
     (if \<not> in_test wrk i j then a
      else if j = i then count_self V a else count_other V (stats (conn_pool wrk ! j)) a)"

definition set_stats :: "worker \<Rightarrow> nat \<Rightarrow> vcl_stats \<Rightarrow> worker" where
  "set_stats wrk i s = upd_conn wrk i (\<lambda>c. c\<lparr>stats := s\<rparr>)"

lemma set_stats_simps [simp]:
  "conn_pool_size (set_stats wrk i s) = conn_pool_size wrk"
  "length (conn_pool (set_stats wrk i s)) = length (conn_pool wrk)"
  "set_stats (set_stats wrk i s) i t = set_stats wrk i t"
  "cfg (conn_pool (set_stats wrk i s) ! j) = cfg (conn_pool wrk ! j)"
  "fd (conn_pool (set_stats wrk i s) ! j) = fd (conn_pool wrk ! j)"
  "j \<noteq> i \<Longrightarrow> conn_pool (set_stats wrk i s) ! j = conn_pool wrk ! j"
  "i < length (conn_pool wrk) \<Longrightarrow> stats (conn_pool (set_stats wrk i s) ! i) = s"
      apply (simp_all add: set_stats_def comp_def)
   apply (cases "i < length (conn_pool wrk)"; cases "j = i"; simp add: upd_conn_def list_update_beyond)+
  done

lemma set_stats_same: "i < length (conn_pool wrk) \<Longrightarrow> set_stats wrk i (stats (conn_pool wrk ! i)) = wrk"
  by (simp add: set_stats_def upd_conn_def)

lemma in_test_set_stats [simp]: "in_test (set_stats wrk i s) i j \<longleftrightarrow> in_test wrk i j"
  by (simp add: in_test_def)

lemma upd_stats_set: "upd_stats wrk i f = set_stats wrk i (f (stats (conn_pool wrk ! i)))"
  by (simp add: upd_stats_def set_stats_def upd_conn_def)

lemma stop_slot_effect:
  assumes "i < length (conn_pool wrk)"
  shows "fst (stop_slot V bi i j (wrk, w)) = set_stats wrk i (counted V wrk i j (stats (conn_pool wrk ! i)))"
  using assms
  by (cases "j = i")
    (simp_all add: stop_slot_def counted_def in_test_def count_self_def count_other_def Let_def upd_stats_set
      set_stats_same)

lemma counted_set_stats:
  "i < length (conn_pool wrk) \<Longrightarrow> counted V (set_stats wrk i s) i j a = counted V wrk i j a"
  by (simp add: counted_def)

lemma stop_fold:
  assumes "i < length (conn_pool wrk)"
  shows "fst (fold (stop_slot V bi i) js (wrk, w))
    = set_stats wrk i (fold (counted V wrk i) js (stats (conn_pool wrk ! i)))"
  using assms
proof (induction js arbitrary: wrk w)
  case (Cons j js)
  obtain wrk1 w1 where 1: "stop_slot V bi i j (wrk, w) = (wrk1, w1)" by fastforce
  with stop_slot_effect [OF Cons.prems, of V bi j w]
  have wrk1: "wrk1 = set_stats wrk i (counted V wrk i j (stats (conn_pool wrk ! i)))" by simp
  with Cons.IH [of wrk1 w1] Cons.prems 1 show ?case by (simp add: counted_set_stats cong: fold_cong)
qed (simp add: set_stats_same)

definition rx_of :: "worker \<Rightarrow> nat \<Rightarrow> u64" where
  "rx_of wrk j = rx_bytes (stats (conn_pool wrk ! j))"

definition rx_sum :: "worker \<Rightarrow> nat \<Rightarrow> nat list \<Rightarrow> u64" where
  "rx_sum wrk i js = sum_list (map (rx_of wrk) (filter (in_test wrk i) js))"

lemma counted_rx:
  assumes "\<And>a b. rx_bytes (vcl_test_stats_accumulate V a b) = rx_bytes a + rx_bytes b"
  shows "rx_bytes (counted V wrk i j a) =
    (if \<not> in_test wrk i j then rx_bytes a else if j = i then 2 * rx_bytes a else rx_bytes a + rx_of wrk j)"
  using assms by (simp add: counted_def count_self_def count_other_def rx_of_def Let_def)

lemma counted_fold_rx:
  assumes acc: "\<And>a b. rx_bytes (vcl_test_stats_accumulate V a b) = rx_bytes a + rx_bytes b" and "i \<notin> set js"
  shows "rx_bytes (fold (counted V wrk i) js a) = rx_bytes a + rx_sum wrk i js"
  using assms(2)
  by (induction js arbitrary: a) (auto simp: rx_sum_def counted_rx [OF acc] algebra_simps)

lemma upt_split: "i < n \<Longrightarrow> [0..<n] = [0..<i] @ i # [Suc i..<n]"
  using upt_add_eq_append [of 0 i "n - i"] by (simp add: upt_conv_Cons)

text \<open>C25: the total of a stopped test. The received bytes of every slot of the pool with the control
  connection's handle are added to the control connection's own, in use or not; but the control
  connection carries its own handle, is found in the pool like the others, and is added to
  itself: what it had received, and what was counted before its own slot, counts twice.\<close>

theorem stop_totals:
  assumes acc: "\<And>a b. rx_bytes (vcl_test_stats_accumulate V a b) = rx_bytes a + rx_bytes b"
    and "pool_ok (wrk, w)" and i: "i < conn_pool_size wrk"
  shows "rx_of (fst (fold (stop_slot V is_bi i) [0..<conn_pool_size wrk] (wrk, w))) i =
    (if in_test wrk i i then 2 * (rx_of wrk i + rx_sum wrk i [0..<i]) + rx_sum wrk i [Suc i..<conn_pool_size wrk]
     else rx_of wrk i + rx_sum wrk i [0..<i] + rx_sum wrk i [Suc i..<conn_pool_size wrk])"
proof -
  have i': "i < length (conn_pool wrk)" using assms(2) i by (simp add: pool_ok_def)
  have "rx_bytes (fold (counted V wrk i) [0..<conn_pool_size wrk] a) =
      (if in_test wrk i i then 2 * (rx_bytes a + rx_sum wrk i [0..<i]) + rx_sum wrk i [Suc i..<conn_pool_size wrk]
       else rx_bytes a + rx_sum wrk i [0..<i] + rx_sum wrk i [Suc i..<conn_pool_size wrk])" for a
    unfolding upt_split [OF i] fold_append fold_simps comp_def
    by (simp add: counted_fold_rx [OF acc] counted_rx [OF acc])
  with i' show ?thesis by (simp add: stop_fold rx_of_def [of _ i])
qed

text \<open>The delay of the disconnect is subtracted once for every slot of the test. When the
  control connection stopped last, late enough, its stop time ends up as many delays too early
  as the test has slots.\<close>

theorem stop_delay_repeated:
  assumes acc: "\<And>a b. stop (vcl_test_stats_accumulate V a b) = stop a"
    and cmp: "\<And>a b. vcl_comp_tspec V a b < 0 \<longleftrightarrow> fst a < fst b \<or> fst a = fst b \<and> snd a < snd b"
    and "pool_ok (wrk, w)" and i: "i < conn_pool_size wrk"
    and n: "n = length (filter (in_test wrk i) [0..<conn_pool_size wrk])"
    and late: "\<And>j. j < conn_pool_size wrk \<Longrightarrow> in_test wrk i j \<Longrightarrow> j \<noteq> i \<Longrightarrow>
      fst (stop (stats (conn_pool wrk ! j))) + int n * vcl_delay_disconnect V < fst (stop (stats (conn_pool wrk ! i)))"
    and "0 \<le> vcl_delay_disconnect V"
  shows "fst (stop (stats (conn_pool (fst (fold (stop_slot V is_bi i) [0..<conn_pool_size wrk] (wrk, w))) ! i)))
    = fst (stop (stats (conn_pool wrk ! i))) - int n * vcl_delay_disconnect V"
proof -
  let ?d = "vcl_delay_disconnect V"
  have each: "fst (stop (fold (counted V wrk i) js a)) = fst (stop a) - int (length (filter (in_test wrk i) js)) * ?d"
    if "\<And>j. j \<in> set js \<Longrightarrow> in_test wrk i j \<Longrightarrow> j \<noteq> i \<Longrightarrow>
      fst (stop (stats (conn_pool wrk ! j))) + int (length (filter (in_test wrk i) js)) * ?d < fst (stop a)" for js a
    using that
  proof (induction js arbitrary: a)
    case (Cons j js)
    let ?a = "counted V wrk i j a"
    let ?n = "int (length (filter (in_test wrk i) js))"
    have a: "fst (stop ?a) = fst (stop a) - (if in_test wrk i j then ?d else 0)"
    proof (cases "in_test wrk i j \<and> j \<noteq> i")
      case True
      then have "fst (stop (stats (conn_pool wrk ! j))) + (?n + 1) * ?d < fst (stop a)"
        using Cons.prems [of j] by (simp add: algebra_simps)
      moreover have "0 \<le> (?n + 1) * ?d" using assms(7) by simp
      ultimately have "fst (stop (stats (conn_pool wrk ! j))) < fst (stop a)" by linarith
      with True show ?thesis by (auto simp: counted_def count_other_def Let_def acc cmp)
    qed (auto simp: counted_def count_self_def Let_def acc)
    have "fst (stop (stats (conn_pool wrk ! k))) + ?n * ?d < fst (stop ?a)"
      if "k \<in> set js" "in_test wrk i k" "k \<noteq> i" for k
      using Cons.prems [of k] that a by (auto simp: algebra_simps split: if_splits)
    from Cons.IH [OF this] a show ?case by (cases "in_test wrk i j") (simp_all add: algebra_simps)
  qed simp
  have i': "i < length (conn_pool wrk)" using assms(3) i by (simp add: pool_ok_def)
  show ?thesis
    unfolding stop_fold [OF i'] set_stats_simps(7) [OF i'] n by (rule each) (use late n in auto)
qed

section \<open>Starting a test\<close>

lemma on_conn_fst: "fst (on_conn f i st) = upd_conn (fst st) i (\<lambda>_. fst (f (conn_pool (fst st) ! i, snd st)))"
  by (simp add: on_conn_def split: prod.split)

lemma sync_fields [simp]:
  "fd (fst (sync_config_and_reply V g cw)) = fd (fst cw)"
  "is_alloc (fst (sync_config_and_reply V g cw)) = is_alloc (fst cw)"
  "stats (fst (sync_config_and_reply V g cw)) = stats (fst cw)"
  "txbuf_size (cfg (fst (sync_config_and_reply V g cw))) = rxbuf_size (cfg (fst (sync_config_and_reply V g cw)))"
  by (simp_all add: sync_config_and_reply_def Let_def split: prod.split)

lemma sync_ctrl_handle:
  assumes "\<And>g b n w. ctrl_handle (fst (vcl_test_buf_alloc V g b n w)) = ctrl_handle g"
  shows "ctrl_handle (cfg (fst (sync_config_and_reply V g cw))) = ctrl_handle g"
proof -
  obtain c w where cw: "cw = (c, w)" by fastforce
  obtain g' b n w1 where a: "vcl_test_buf_alloc V g (buf c) (buf_size c) w = (g', b, n, w1)"
    by (metis prod_cases4)
  then have "ctrl_handle g' = ctrl_handle g" using assms [of g "buf c" "buf_size c" w] by simp
  with a show ?thesis by (simp add: cw sync_config_and_reply_def Let_def split: prod.split)
qed

lemma set_stats_cfg_fd: "in_test (upd_stats wrk i f) i j \<longleftrightarrow> in_test wrk i j"
  by (simp add: upd_stats_set)


section \<open>Configuration messages\<close>

lemma refuse_fields [simp]:
  "fd (fst (refuse_cfg V cw)) = fd (fst cw)" "is_alloc (fst (refuse_cfg V cw)) = is_alloc (fst cw)"
  by (simp_all add: refuse_cfg_def Let_def split: prod.split)

text \<open>The marks of a worker's pool: for every slot whether it is in use, and its descriptor.\<close>

definition marks :: "worker \<Rightarrow> (u8 \<times> int) list" where
  "marks wrk = map (\<lambda>c. (is_alloc c, fd c)) (conn_pool wrk)"

lemma length_marks [simp]: "length (marks wrk) = length (conn_pool wrk)"
  by (simp add: marks_def)

lemma marks_nth [simp]:
  "i < length (conn_pool wrk) \<Longrightarrow> marks wrk ! i = (is_alloc (conn_pool wrk ! i), fd (conn_pool wrk ! i))"
  by (simp add: marks_def)

definition same_frame :: "worker \<Rightarrow> worker \<Rightarrow> bool" where
  "same_frame wrk wrk' \<longleftrightarrow>
     marks wrk' = marks wrk \<and> conn_pool_size wrk' = conn_pool_size wrk \<and> nfds wrk' = nfds wrk \<and>
     listen_fd wrk' = listen_fd wrk \<and> epfd wrk' = epfd wrk \<and> wait_events wrk' = wait_events wrk \<and>
     wrk_index wrk' = wrk_index wrk"

lemma same_frame_refl [simp]: "same_frame wrk wrk"
  by (simp add: same_frame_def)

lemma same_frame_trans: "same_frame a b \<Longrightarrow> same_frame b c \<Longrightarrow> same_frame a c"
  by (simp add: same_frame_def)

lemma same_frame_length: "same_frame wrk wrk' \<Longrightarrow> length (conn_pool wrk') = length (conn_pool wrk)"
  by (metis length_marks same_frame_def)

lemma same_frame_slot:
  assumes "same_frame wrk wrk'" and "i < length (conn_pool wrk)"
  shows "fd (conn_pool wrk' ! i) = fd (conn_pool wrk ! i)"
    and "is_alloc (conn_pool wrk' ! i) = is_alloc (conn_pool wrk ! i)"
proof -
  have "marks wrk' ! i = marks wrk ! i" using assms(1) by (simp add: same_frame_def)
  then show "fd (conn_pool wrk' ! i) = fd (conn_pool wrk ! i)"
    "is_alloc (conn_pool wrk' ! i) = is_alloc (conn_pool wrk ! i)"
    using assms by (simp_all add: same_frame_length)
qed

lemma same_frame_upd:
  assumes "is_alloc (f (conn_pool wrk ! i)) = is_alloc (conn_pool wrk ! i)"
    and "fd (f (conn_pool wrk ! i)) = fd (conn_pool wrk ! i)"
  shows "same_frame wrk (upd_conn wrk i f)"
  using assms
  by (auto simp: same_frame_def marks_def intro!: nth_equalityI) (auto simp: upd_conn_nth)

lemma same_frame_stats [simp]: "same_frame wrk (upd_stats wrk i f)"
  by (simp add: upd_stats_def same_frame_upd)

lemma same_frame_set_stats [simp]: "same_frame wrk (set_stats wrk i s)"
  by (simp add: set_stats_def same_frame_upd)

lemma same_frame_on_conn:
  assumes "\<And>cw. fd (fst (f cw)) = fd (fst cw) \<and> is_alloc (fst (f cw)) = is_alloc (fst cw)"
  shows "same_frame (fst st) (fst (on_conn f i st))"
  using assms by (simp add: on_conn_fst same_frame_upd)

lemma same_frame_stats_step [inv_intros]:
  "same_frame wrk wrk' \<Longrightarrow> same_frame wrk (upd_stats wrk' i f)"
  using same_frame_trans [OF _ same_frame_stats] .

lemma same_frame_sync_step [inv_intros]:
  "same_frame wrk wrk' \<Longrightarrow> same_frame wrk (fst (on_conn (sync_config_and_reply V g) i (wrk', w)))"
  by (erule same_frame_trans) (use same_frame_on_conn [of "sync_config_and_reply V g" "(wrk', w)" i] in simp)

lemma same_frame_buf_step [inv_intros]:
  "same_frame wrk wrk' \<Longrightarrow> same_frame wrk (upd_conn wrk' i (\<lambda>c. c\<lparr>buf := f c\<rparr>))"
  by (erule same_frame_trans) (simp add: same_frame_upd)

lemma stop_slot_frame: "same_frame wrk (fst st) \<Longrightarrow> same_frame wrk (fst (stop_slot V bi i j st))"
  by (auto simp: stop_slot_def Let_def split: prod.split intro!: inv_intros)

lemma stop_fold_frame [inv_intros]:
  "same_frame wrk (fst st) \<Longrightarrow> same_frame wrk (fst (fold (stop_slot V bi i) js st))"
  by (induction js arbitrary: st) (simp_all add: stop_slot_frame)

lemma start_stop_frame: "same_frame (fst st) (fst (vts_server_start_stop V i g st))"
proof -
  obtain wrk w where st: "st = (wrk, w)" by fastforce
  have sync: "same_frame wrk wrk2" if "on_conn (sync_config_and_reply V g') i (wrk1, w1) = (wrk2, w2)"
    "same_frame wrk wrk1" for g' wrk1 w1 wrk2 w2
    using same_frame_sync_step [OF that(2), of V g' i w1] that(1) by simp
  have fold: "same_frame wrk wrk2" if "fold (stop_slot V bi i) js (wrk, w) = (wrk2, w2)" for bi js wrk2 w2
    using stop_fold_frame [of wrk "(wrk, w)" V bi i js] that by simp
  show ?thesis
    by (auto simp: st vts_server_start_stop_def Let_def intro!: inv_intros split: prod.split
        dest!: fold sync intro: same_frame_buf_step [OF same_frame_refl])
qed

text \<open>Slot \<open>i\<close> is freed and one connection less is counted, nothing else.\<close>

definition exit_frame :: "nat \<Rightarrow> worker \<Rightarrow> worker \<Rightarrow> bool" where
  "exit_frame i wrk wrk' \<longleftrightarrow>
     marks wrk' = (marks wrk)[i := (0, 0)] \<and> conn_pool_size wrk' = conn_pool_size wrk \<and>
     nfds wrk' = nfds wrk - 1 \<and> listen_fd wrk' = listen_fd wrk \<and> epfd wrk' = epfd wrk \<and>
     wait_events wrk' = wait_events wrk"

definition is_exit :: "'w vcl_io \<Rightarrow> vcl_cfg \<Rightarrow> int \<Rightarrow> bool" where
  "is_exit V g rx \<longleftrightarrow> rx = int (cfg_size V) \<and> test g = VCL_TEST_TYPE_EXIT"

lemma exit_frame_free:
  "i < length (conn_pool wrk) \<Longrightarrow>
     exit_frame i wrk ((conn_pool_free (upd_stats wrk i f) i)\<lparr>nfds := nfds wrk - 1\<rparr>)"
  by (simp add: exit_frame_def marks_def conn_pool_free_def upd_stats_def upd_conn_def map_update)

lemma handle_cfg_frame:
  assumes i: "i < length (conn_pool (fst st))"
  shows "if is_exit V g rx then exit_frame i (fst st) (fst (snd (vts_handle_cfg V i g rx st)))
    else same_frame (fst st) (fst (snd (vts_handle_cfg V i g rx st)))"
proof -
  obtain wrk w where st: "st = (wrk, w)" by fastforce
  consider "rx \<noteq> int (cfg_size V)" | "is_exit V g rx" | "rx = int (cfg_size V)" "test g \<noteq> VCL_TEST_TYPE_EXIT"
    by (auto simp: is_exit_def)
  then show ?thesis
  proof cases
    case 1
    then show ?thesis
      using same_frame_on_conn [of "refuse_cfg V" st i] by (auto simp: vts_handle_cfg_def is_exit_def)
  next
    case 2
    then show ?thesis
      using i exit_frame_free [of i wrk]
      by (auto simp: st vts_handle_cfg_def is_exit_def Let_def upd_stats_def conn_pool_free_def split: prod.split)
  next
    case 3
    then show ?thesis
      using same_frame_on_conn [of "sync_config_and_reply V g" st i] start_stop_frame [of st V i g]
      by (auto simp: vts_handle_cfg_def is_exit_def split: test_type.split)
  qed
qed


section \<open>A new client\<close>

text \<open>C23: a client that connects takes a slot that was not in use and leaves the content of all
  others alone. It is counted as a connection only if it was accepted and is watched; if either
  fails the slot stays in use all the same, and nothing ever gives it back.\<close>

theorem new_client_slot:
  assumes ok: "pool_ok (wrk, w)" and get: "conn_get V (wrk, w) = Some (i, wrk1, w1)"
    and acc: "vppcom_session_accept V (listen_fd wrk) (ip (conn_pool wrk1 ! i)) w1 = (r, a, w2)"
    and ctl: "vppcom_epoll_ctl_add V (epfd wrk) r \<lparr>events = EPOLLIN, ev_data = word_of_nat i\<rparr> w2 = (rv, w3)"
    and new: "vts_new_client V (wrk, w) = (wrk', w')"
  shows "\<not> conn_live (wrk, w) i \<and> (\<forall>j. conn_live (wrk', w') j \<longleftrightarrow> j = i \<or> conn_live (wrk, w) j) \<and>
    (\<forall>j. conn_live (wrk, w) j \<longrightarrow> conn_elt (wrk', w') j = conn_elt (wrk, w) j) \<and>
    conn_elts (wrk', w') = Suc (conn_elts (wrk, w)) \<and>
    nfds wrk' = (if 0 \<le> r \<and> 0 \<le> rv then nfds wrk + 1 else nfds wrk)"
proof -
  have alloc: "conn_pool_alloc V (wrk, w) = (Some i, wrk1, w1)"
    using get by (auto simp: conn_get_def split: prod.splits option.splits)
  from alloc_shape [OF ok get] have fr: "nfds wrk1 = nfds wrk" "listen_fd wrk1 = listen_fd wrk" "epfd wrk1 = epfd wrk"
    by auto
  define f where "f = (\<lambda>c :: conn. if r < 0 then c\<lparr>ip := a\<rparr> else c\<lparr>ip := a, fd := r\<rparr>)"
  have w': "conn_pool wrk' = conn_pool (upd_conn wrk1 i f)" "conn_pool_size wrk' = conn_pool_size wrk1"
    "nfds wrk' = (if 0 \<le> r \<and> 0 \<le> rv then nfds wrk + 1 else nfds wrk)"
    using new alloc acc ctl fr
    by (cases "r < 0"; cases "rv < 0"; force simp: vts_new_client_def Let_def f_def comp_def)+
  have f: "keeps_mark f" by (simp add: f_def keeps_mark_def)
  have v: "pool_ok (wrk1, w1)" by (rule conns.get_valid [OF ok get])
  have same: "conn_live (wrk', w') = conn_live (conn_upd (wrk1, w1) i f)"
    "conn_elt (wrk', w') = conn_elt (conn_upd (wrk1, w1) i f)" "conn_elts (wrk', w') = conn_elts (conn_upd (wrk1, w1) i f)"
    by (auto simp: fun_eq_iff conn_live_def conn_elt_def conn_elts_def conn_upd_def w')
  have fresh: "\<not> conn_live (wrk, w) i" by (rule conns.get_fresh [OF ok get])
  moreover have "conn_live (wrk', w') j \<longleftrightarrow> j = i \<or> conn_live (wrk, w) j" for j
    unfolding same using conns.upd_live [OF v f] conns.get_live [OF ok get] by simp
  moreover have "conn_elt (wrk', w') j = conn_elt (wrk, w) j" if "conn_live (wrk, w) j" for j
  proof -
    have "j \<noteq> i" using that fresh by auto
    then show ?thesis unfolding same
      using conns.upd_other [OF v f] conns.get_elt [OF ok get that] by simp
  qed
  moreover have "conn_elts (wrk', w') = Suc (conn_elts (wrk, w))"
    unfolding same using conns.upd_elts [OF v f] conns.get_elts [OF ok get] by simp
  ultimately show ?thesis using w'(3) by auto
qed

end
