(* ===== verification/VtsWorker.thy ===== *)
theory VtsWorker
  imports VtsTest
begin

text \<open>
  The VCL test server (\<open>src/src/vcl-test-server/main.c\<close>), part 3: a worker. Its start
  (\<open>vts_worker_init\<close>), the datagram statistics, one event, and the loop of \<open>vts_worker_loop\<close>,
  with the invariant that ties the pool and the connection count to what epoll watches.

  \<open>None\<close> is an access outside the pool or a buffer, or fuel that ran out: the loop runs until the
  last client leaves, so its fuel bounds the batches of events, and the turns of \<open>read_again\<close>.
\<close>

section \<open>The server's shared state\<close>

record server_cfg =
  port :: u16
  address_ip6 :: u32
  proto :: proto
  workers_cfg :: u8
  cfg_endpt :: endpt

text \<open>A socket address: family, address bytes and port, the port in network order.\<close>

record sockaddr =
  sa_family :: u16
  sa_addr :: "u8 list"
  sa_port :: u16

abbreviation (input) AF_INET :: u16 where "AF_INET \<equiv> 2"
abbreviation (input) AF_INET6 :: u16 where "AF_INET6 \<equiv> 10"

record server_main =
  vcfg :: server_cfg
  servaddr :: sockaddr
  worker_fails :: int
  active_workers :: int
  use_ds :: u8

section \<open>Starting a worker\<close>

text \<open>How the program can end early: \<open>vtfail\<close>, with a message that names the failed call, and
  \<open>print_usage_and_exit\<close>.\<close>

datatype vtfail = Vtfail string int | Usage

text \<open>The datum of the listener: its low half is \<open>~0\<close>, the high half is not initialised (\<open>junk\<close>).\<close>

definition listen_data :: "u32 \<Rightarrow> u64" where
  "listen_data junk = push_bit 32 (ucast junk) OR mask 32"

definition add_listener :: "'w vcl_io \<Rightarrow> u32 \<Rightarrow> worker \<times> 'w \<Rightarrow> vtfail + worker \<times> 'w" where
  "add_listener V junk st =
     (case vppcom_epoll_create V (snd st) of
        (ep, w) \<Rightarrow>
          (let wrk = (fst st)\<lparr>epfd := ep\<rparr>
           in if epfd wrk < 0 then Inl (Vtfail ''vppcom_epoll_create()'' (epfd wrk))
              else
                (case vppcom_epoll_ctl_add V (epfd wrk) (listen_fd wrk)
                        \<lparr>events = EPOLLIN, ev_data = listen_data junk\<rparr> w of
                   (rv, w) \<Rightarrow>
                     if rv < 0 then Inl (Vtfail ''vppcom_epoll_ctl'' rv) else Inr (wrk, w))))"

definition bind_listener :: "'w vcl_io \<Rightarrow> server_cfg \<Rightarrow> worker \<times> 'w \<Rightarrow> vtfail + worker \<times> 'w" where
  "bind_listener V vc st =
     (let wrk = fst st;
          w = (if proto vc = VPPCOM_PROTO_TLS
               then vppcom_session_tls_add_key V (listen_fd wrk)
                      (vppcom_session_tls_add_cert V (listen_fd wrk) (snd st))
               else snd st)
      in case vppcom_session_bind V (listen_fd wrk) (cfg_endpt vc) w of
           (rv, w) \<Rightarrow>
             if rv < 0 then Inl (Vtfail ''vppcom_session_bind()'' rv)
             else if proto vc \<noteq> VPPCOM_PROTO_UDP then
               (case vppcom_session_listen V (listen_fd wrk) 10 w of
                  (rv, w) \<Rightarrow>
                    if rv < 0 then Inl (Vtfail ''vppcom_session_listen()'' rv) else Inr (wrk, w))
             else Inr (wrk, w))"

definition vts_worker_init ::
    "'w vcl_io \<Rightarrow> u32 \<Rightarrow> server_main \<Rightarrow> worker \<times> 'w \<Rightarrow> vtfail + server_main \<times> worker \<times> 'w" where
  "vts_worker_init V junk vsm st =
     (case conn_pool_expand V (max_test_sess V + 1) st of
        (wrk, w) \<Rightarrow>
          (case (if wrk_index wrk \<noteq> 0 then vppcom_worker_register V w else (0, w)) of
             (r, w) \<Rightarrow>
               if r \<noteq> 0 then Inl (Vtfail ''vppcom_worker_register()'' 1)
               else
                 (case vppcom_session_create V (proto (vcfg vsm)) w of
                    (l, w) \<Rightarrow>
                      (let wrk = wrk\<lparr>listen_fd := l\<rparr>
                       in if listen_fd wrk < 0 then Inl (Vtfail ''vppcom_session_create()'' (listen_fd wrk))
                          else
                            (case bind_listener V (vcfg vsm) (wrk, w) of
                               Inl e \<Rightarrow> Inl e
                             | Inr st \<Rightarrow>
                                 (case add_listener V junk st of
                                    Inl e \<Rightarrow> Inl e
                                  | Inr (wrk, w) \<Rightarrow>
                                      Inr (vsm\<lparr>active_workers := active_workers vsm + 1\<rparr>, wrk, w)))))))"

section \<open>Datagram statistics\<close>

record dgram_status =
  last_time :: real
  speed :: u64
  total :: u64
  pps :: u64
  cur_pps :: u64

definition dgram_status_zero :: dgram_status where
  "dgram_status_zero = \<lparr>last_time = 0, speed = 0, total = 0, pps = 0, cur_pps = 0\<rparr>"

text \<open>The macro \<open>_(data, tag1, tag2)\<close> of this file: the unit letter and the whole number printed.\<close>

datatype unit_letter = In_G | In_M | In_K | In_ones

definition human_int :: "u64 \<Rightarrow> unit_letter \<times> u64" where
  "human_int data =
     (if data > 1024 * 1024 * 1024 then (In_G, drop_bit 30 data)
      else if data > 1024 * 1024 then (In_M, drop_bit 20 data)
      else if data > 1024 then (In_K, drop_bit 10 data)
      else (In_ones, data))"

text \<open>What is counted for one receive; \<open>f64\<close> rounds to the nearest double.\<close>

definition dgram_count ::
    "u64 \<Rightarrow> (real \<Rightarrow> real) \<Rightarrow> real \<Rightarrow> int \<times> u64 \<times> u64 \<Rightarrow> dgram_status \<Rightarrow>
      ((unit_letter \<times> u64) \<times> (unit_letter \<times> u64)) option \<times> dgram_status" where
  "dgram_count hdr f64 freq x s =
     (case x of (rx, now1, now2) \<Rightarrow>
        (let s = s\<lparr>total := total s + (of_int rx - hdr), cur_pps := cur_pps s + 1\<rparr>
         in if f64 (f64 (real (unat now1)) - last_time s) \<ge> freq then
              (let s = s\<lparr>pps := cur_pps s, cur_pps := 0, speed := total s * 8, total := 0,
                         last_time := f64 (real (unat now2))\<rparr>
               in (Some (human_int (speed s), human_int (pps s)), s))
            else (None, s)))"

text \<open>The second reading of the clock happens only when the window closes.\<close>

definition serve_dgram :: "'w vcl_io \<Rightarrow> worker \<Rightarrow> dgram_status \<times> 'w \<Rightarrow> (dgram_status \<times> 'w) option" where
  "serve_dgram V wrk st =
     (case vppcom_session_read_segments V (listen_fd wrk) (snd st) of
        (rx, d, w) \<Rightarrow>
          (case fill (vppcom_data_segment_copy V d 1000) (replicate 1000 0) of
             None \<Rightarrow> None
           | Some _ \<Rightarrow>
               (let w = vppcom_session_free_segments V (listen_fd wrk) d w
                in case clib_cpu_time_now V w of
                     (now1, w) \<Rightarrow>
                       (case clib_cpu_time_now V w of
                          (now2, w2) \<Rightarrow>
                            (case dgram_count (sizeof_dgram_hdr V) (f64_round V) (os_cpu_clock_frequency V)
                                    (rx, now1, now2) (fst st) of
                               (None, s) \<Rightarrow> Some (s, w)
                             | (Some _, s) \<Rightarrow> Some (s, w2))))))"

section \<open>One event\<close>

text \<open>How the handling of an event goes on: the next event, another read, or the two exits.\<close>

datatype flow = Next | Read_again | Failed | Finished

text \<open>Whether what was read is a configuration message; looking at it may copy it to the buffer.\<close>

definition config_message :: "'w vcl_io \<Rightarrow> bool \<Rightarrow> conn \<Rightarrow> (vcl_cfg option \<times> conn) option" where
  "config_message V ds_mode c =
     (if vts_conn_expect_config c then
        (case vts_conn_read_config V ds_mode c of
           None \<Rightarrow> None
         | Some (g, c) \<Rightarrow> Some (if magic g = ctrl_magic V then Some g else None, c))
      else Some (None, c))"

definition handle_data :: "'w vcl_io \<Rightarrow> bool \<Rightarrow> int \<Rightarrow> conn \<times> 'w \<Rightarrow> (flow \<times> conn \<times> 'w) option" where
  "handle_data V ds_mode rx cw =
     (if test (cfg (fst cw)) = VCL_TEST_TYPE_UNI \<or> test (cfg (fst cw)) = VCL_TEST_TYPE_BI then
        map_option (\<lambda>(c, w). (if vppcom_get_nread V (fd c) w > 0 then Read_again else Next, c, w))
          (vts_server_rx V ds_mode rx cw)
      else
        (case vts_conn_has_ascii ds_mode (fst cw) of
           None \<Rightarrow> None
         | Some False \<Rightarrow> Some (Next, cw)
         | Some True \<Rightarrow> map_option (\<lambda>(_, cw). (Next, cw)) (vts_server_echo V ds_mode rx cw)))"

definition read_turn :: "'w vcl_io \<Rightarrow> bool \<Rightarrow> nat \<Rightarrow> worker \<times> 'w \<Rightarrow> (flow \<times> worker \<times> 'w) option" where
  "read_turn V ds_mode i st =
     (case vts_conn_read V ds_mode (conn_pool (fst st) ! i, snd st) of
        None \<Rightarrow> None
      | Some (rx, c, w) \<Rightarrow>
          if rx \<le> 0 then
            Some (if errno_connreset V w then Failed else Next, upd_conn (fst st) i (\<lambda>_. c), w)
          else
            (case config_message V ds_mode c of
               None \<Rightarrow> None
             | Some (Some rx_cfg, c) \<Rightarrow>
                 (let w = (if ds_mode then vppcom_session_free_segments V (fd c) (ds c) w else w)
                  in case vts_handle_cfg V i rx_cfg rx (upd_conn (fst st) i (\<lambda>_. c), w) of
                       (_, wrk, w) \<Rightarrow> Some (if nfds wrk = 0 then Finished else Next, wrk, w))
             | Some (None, c) \<Rightarrow>
                 map_option (\<lambda>(fl, c, w). (fl, upd_conn (fst st) i (\<lambda>_. c), w))
                   (handle_data V ds_mode rx (c, w))))"

fun read_again :: "nat \<Rightarrow> 'w vcl_io \<Rightarrow> bool \<Rightarrow> nat \<Rightarrow> worker \<times> 'w \<Rightarrow> (flow \<times> worker \<times> 'w) option" where
  "read_again 0 V ds_mode i st = None"
| "read_again (Suc k) V ds_mode i st =
     (case read_turn V ds_mode i st of
        None \<Rightarrow> None
      | Some (fl, st) \<Rightarrow> if fl = Read_again then read_again k V ds_mode i st else Some (fl, st))"

type_synonym 'w loop_state = "worker \<times> dgram_status \<times> 'w"

text \<open>\<open>data.u32\<close> of an event; an event of a connection dereferences its slot.\<close>

definition ev_u32 :: "epoll_event \<Rightarrow> u32" where
  "ev_u32 e = ucast (ev_data e)"

definition conn_event :: "nat \<Rightarrow> 'w vcl_io \<Rightarrow> bool \<Rightarrow> epoll_event \<Rightarrow> worker \<times> 'w \<Rightarrow> (flow \<times> worker \<times> 'w) option" where
  "conn_event k V ds_mode e st =
     (let i = unat (ev_u32 e); wrk = fst st
      in if events e AND (EPOLLHUP OR EPOLLRDHUP) \<noteq> 0 then
           (if i \<ge> length (conn_pool wrk) then None
            else
              (let w = vppcom_session_close V (fd (conn_pool wrk ! i)) (snd st);
                   wrk = wrk\<lparr>nfds := nfds wrk - 1\<rparr>
               in Some (if nfds wrk = 0 then Finished else Next, wrk, w)))
         else if ev_u32 e = - 1 then Some (Next, vts_new_client V st)
         else if EPOLLIN AND events e \<noteq> 0 then
           (if i \<ge> length (conn_pool wrk) then None else read_again k V ds_mode i st)
         else Some (Failed, st))"

definition vts_event :: "nat \<Rightarrow> 'w vcl_io \<Rightarrow> server_main \<Rightarrow> epoll_event \<Rightarrow> 'w loop_state \<Rightarrow> (flow \<times> 'w loop_state) option" where
  "vts_event k V vsm e st =
     (case st of (wrk, s, w) \<Rightarrow>
        if proto (vcfg vsm) = VPPCOM_PROTO_UDP \<and> EPOLLIN AND events e \<noteq> 0 then
          map_option (\<lambda>(s, w). (Next, wrk, s, w)) (serve_dgram V wrk (s, w))
        else
          map_option (\<lambda>(fl, wrk, w). (fl, wrk, s, w)) (conn_event k V (use_ds vsm \<noteq> 0) e (wrk, w)))"

section \<open>The loop\<close>

fun vts_events :: "nat \<Rightarrow> 'w vcl_io \<Rightarrow> server_main \<Rightarrow> epoll_event list \<Rightarrow> 'w loop_state \<Rightarrow> (flow \<times> 'w loop_state) option" where
  "vts_events k V vsm [] st = Some (Next, st)"
| "vts_events k V vsm (e # es) st =
     (case vts_event k V vsm e st of
        None \<Rightarrow> None
      | Some (fl, st) \<Rightarrow> if fl = Next then vts_events k V vsm es st else Some (fl, st))"

text \<open>\<open>vppcom_epoll_wait\<close> fills the start of the worker's array of events; the first \<open>num_ev\<close> of
  the array are handled.\<close>

fun vts_loop :: "nat \<Rightarrow> 'w vcl_io \<Rightarrow> server_main \<Rightarrow> 'w loop_state \<Rightarrow> (flow \<times> 'w loop_state) option" where
  "vts_loop 0 V vsm st = None"
| "vts_loop (Suc k) V vsm (wrk, s, w) =
     (case vppcom_epoll_wait V (epfd wrk) (max_epoll_events V) w of
        (num_ev, evs, w) \<Rightarrow>
          (let wrk = wrk\<lparr>wait_events := evs @ drop (length evs) (wait_events wrk)\<rparr>
           in if num_ev < 0 then Some (Failed, wrk, s, w)
              else if num_ev = 0 then vts_loop k V vsm (wrk, s, w)
              else if nat num_ev > length (wait_events wrk) then None
              else
                (case vts_events k V vsm (take (nat num_ev) (wait_events wrk)) (wrk, s, w) of
                   None \<Rightarrow> None
                 | Some (fl, st) \<Rightarrow> if fl = Next then vts_loop k V vsm st else Some (fl, st))))"

text \<open>The exit of \<open>vts_worker_loop\<close>: the listener is closed, the pool freed.\<close>

definition worker_exit :: "'w vcl_io \<Rightarrow> flow \<Rightarrow> server_main \<Rightarrow> 'w loop_state \<Rightarrow> server_main \<times> 'w loop_state" where
  "worker_exit V fl vsm st =
     (case st of (wrk, s, w) \<Rightarrow>
        (let vsm = (if fl = Failed then vsm\<lparr>worker_fails := worker_fails vsm - 1\<rparr> else vsm);
             w = vppcom_session_close V (listen_fd wrk) w
         in (vsm\<lparr>active_workers := active_workers vsm - 1\<rparr>, wrk\<lparr>conn_pool := []\<rparr>, s, w)))"

definition vts_worker_loop ::
    "nat \<Rightarrow> 'w vcl_io \<Rightarrow> u32 \<Rightarrow> server_main \<Rightarrow> 'w loop_state \<Rightarrow>
      (vtfail + server_main \<times> 'w loop_state) option" where
  "vts_worker_loop k V junk vsm st =
     (case st of (wrk, s, w) \<Rightarrow>
        (case (if wrk_index wrk \<noteq> 0 then vts_worker_init V junk vsm (wrk, w) else Inr (vsm, wrk, w)) of
           Inl e \<Rightarrow> Some (Inl e)
         | Inr (vsm, wrk, w) \<Rightarrow>
             map_option (\<lambda>(fl, st). Inr (worker_exit V fl vsm st)) (vts_loop k V vsm (wrk, s, w))))"

end
