(* ===== verification/VtsLoop.thy ===== *)
theory VtsLoop
  imports VtsWorker
begin

text \<open>
  What the worker's loop of the VCL test server keeps true, given the documented behaviour of
  epoll and of VPP's session layer (\<open>vcl_laws\<close>): the connections it counts are the descriptors
  epoll watches besides the listener, each is the descriptor of a slot in use, and the datum of
  an event leads to that slot.
\<close>

section \<open>The library's documented behaviour\<close>

text \<open>Only adding and closing a descriptor change what is watched; an accepted descriptor is new;
  memory for \<open>2 ^ 32\<close> slots is refused; a wait returns events of watched descriptors, at most
  one for each.\<close>

definition vcl_laws :: "'w vcl_io \<Rightarrow> bool" where
  "vcl_laws V \<longleftrightarrow>
     (\<forall>n w b w'. realloc_ok V n w = (b, w') \<longrightarrow> watched V w' = watched V w \<and> (b \<longrightarrow> n < 2 ^ 32)) \<and>
     (\<forall>g b n w g' b' n' w'. vcl_test_buf_alloc V g b n w = (g', b', n', w') \<longrightarrow> watched V w' = watched V w) \<and>
     (\<forall>f bs s v w n s' w'. vcl_test_write V f bs s v w = (n, s', w') \<longrightarrow> watched V w' = watched V w) \<and>
     (\<forall>f m s w n bs s' w'. vcl_test_read V f m s w = (n, bs, s', w') \<longrightarrow> watched V w' = watched V w) \<and>
     (\<forall>f s w n d s' w'. vcl_test_read_ds V f s w = (n, d, s', w') \<longrightarrow> watched V w' = watched V w) \<and>
     (\<forall>t s a b v w. watched V (vcl_test_stats_dump V t s a b v w) = watched V w) \<and>
     (\<forall>w t w'. clock_realtime V w = (t, w') \<longrightarrow> watched V w' = watched V w) \<and>
     (\<forall>f d w. watched V (vppcom_session_free_segments V f d w) = watched V w) \<and>
     (\<forall>f w n d w'. vppcom_session_read_segments V f w = (n, d, w') \<longrightarrow> watched V w' = watched V w) \<and>
     (\<forall>w t w'. clib_cpu_time_now V w = (t, w') \<longrightarrow> watched V w' = watched V w) \<and>
     (\<forall>l a w r a' w'. vppcom_session_accept V l a w = (r, a', w') \<longrightarrow>
        watched V w' = watched V w \<and> (0 \<le> r \<longrightarrow> r \<notin> fst ` set (watched V w))) \<and>
     (\<forall>ep f e w rv w'. vppcom_epoll_ctl_add V ep f e w = (rv, w') \<longrightarrow>
        watched V w' = (if rv < 0 then watched V w else watched V w @ [(f, ev_data e)])) \<and>
     (\<forall>f w. watched V (vppcom_session_close V f w) = filter (\<lambda>x. fst x \<noteq> f) (watched V w)) \<and>
     (\<forall>ep m w n evs w'. vppcom_epoll_wait V ep m w = (n, evs, w') \<longrightarrow>
        watched V w' = watched V w \<and> (0 \<le> n \<longrightarrow> length evs = nat n) \<and> distinct (map ev_data evs) \<and>
        ev_data ` set evs \<subseteq> snd ` set (watched V w))"

lemma vcl_lawsD:
  assumes "vcl_laws V"
  shows "realloc_ok V n w = (b, w') \<Longrightarrow> watched V w' = watched V w \<and> (b \<longrightarrow> n < 2 ^ 32)"
    and "vcl_test_buf_alloc V g bs m w = (g', bs', m', w') \<Longrightarrow> watched V w' = watched V w"
    and "vcl_test_write V f bs s v w = (r, s', w') \<Longrightarrow> watched V w' = watched V w"
    and "vcl_test_read V f m t w = (r, bs, t', w') \<Longrightarrow> watched V w' = watched V w"
    and "vcl_test_read_ds V f t w = (r, d, t', w') \<Longrightarrow> watched V w' = watched V w"
    and "watched V (vcl_test_stats_dump V tag t x y v w) = watched V w"
    and "clock_realtime V w = (now, w') \<Longrightarrow> watched V w' = watched V w"
    and "watched V (vppcom_session_free_segments V f d w) = watched V w"
    and "vppcom_session_read_segments V f w = (r, d, w') \<Longrightarrow> watched V w' = watched V w"
    and "clib_cpu_time_now V w = (cyc, w') \<Longrightarrow> watched V w' = watched V w"
    and "vppcom_session_accept V f a w = (r, a', w') \<Longrightarrow>
      watched V w' = watched V w \<and> (0 \<le> r \<longrightarrow> r \<notin> fst ` set (watched V w))"
    and "vppcom_epoll_ctl_add V ep f e w = (r, w') \<Longrightarrow>
      watched V w' = (if r < 0 then watched V w else watched V w @ [(f, ev_data e)])"
    and "watched V (vppcom_session_close V f w) = filter (\<lambda>x. fst x \<noteq> f) (watched V w)"
    and "vppcom_epoll_wait V ep n w = (r, evs, w') \<Longrightarrow>
      watched V w' = watched V w \<and> (0 \<le> r \<longrightarrow> length evs = nat r) \<and> distinct (map ev_data evs) \<and>
      ev_data ` set evs \<subseteq> snd ` set (watched V w)"
  using assms unfolding vcl_laws_def by - (fast+)

section \<open>What is watched\<close>

lemma sync_watched: "vcl_laws V \<Longrightarrow> watched V (snd (sync_config_and_reply V g (c, w))) = watched V w"
  using vcl_lawsD(2,3) by (fastforce simp: sync_config_and_reply_def Let_def split: prod.splits)

lemma refuse_watched: "vcl_laws V \<Longrightarrow> watched V (snd (refuse_cfg V (c, w))) = watched V w"
  using vcl_lawsD(3) by (fastforce simp: refuse_cfg_def Let_def split: prod.splits)

lemma on_conn_watched:
  assumes "\<And>c. watched V (snd (f (c, snd st))) = watched V (snd st)"
  shows "watched V (snd (on_conn f i st)) = watched V (snd st)"
  using assms by (auto simp: on_conn_def split: prod.split) (metis snd_conv)

lemma stop_slot_watched: "vcl_laws V \<Longrightarrow> watched V (snd (stop_slot V bi i j st)) = watched V (snd st)"
  using vcl_lawsD(6) by (auto simp: stop_slot_def Let_def split: prod.split)

lemma stop_fold_watched:
  "vcl_laws V \<Longrightarrow> watched V (snd (fold (stop_slot V bi i) js st)) = watched V (snd st)"
  by (induction js arbitrary: st) (simp_all add: stop_slot_watched)

lemma on_sync_watched:
  "vcl_laws V \<Longrightarrow> watched V (snd (on_conn (sync_config_and_reply V g) i st)) = watched V (snd st)"
  by (simp add: on_conn_watched sync_watched)

lemma start_stop_watched:
  assumes L: "vcl_laws V"
  shows "watched V (snd (vts_server_start_stop V i g st)) = watched V (snd st)"
proof -
  have sync: "watched V w' = watched V (snd st')"
    if "on_conn (sync_config_and_reply V g') i st' = (wrk', w')" for g' st' wrk' w'
    using on_sync_watched [OF L, of g' i st'] that by simp
  show ?thesis
    by (auto simp: vts_server_start_stop_def Let_def on_sync_watched [OF L] stop_fold_watched [OF L] vcl_lawsD(6) [OF L]
        split: prod.split dest!: sync vcl_lawsD(7) [OF L])
qed

lemma handle_cfg_watched:
  assumes L: "vcl_laws V" and i: "i < length (conn_pool (fst st))"
  shows "watched V (snd (snd (vts_handle_cfg V i g rx st))) =
    (if is_exit V g rx then filter (\<lambda>x. fst x \<noteq> fd (conn_pool (fst st) ! i)) (watched V (snd st))
     else watched V (snd st))"
proof -
  obtain wrk w where st: "st = (wrk, w)" by fastforce
  consider "rx \<noteq> int (cfg_size V)" | "is_exit V g rx" | "rx = int (cfg_size V)" "test g \<noteq> VCL_TEST_TYPE_EXIT"
    by (auto simp: is_exit_def)
  then show ?thesis
  proof cases
    case 1
    then show ?thesis
      by (simp add: vts_handle_cfg_def is_exit_def on_conn_watched refuse_watched [OF L])
  next
    case 2
    then show ?thesis
      using i vcl_lawsD(7) [OF L] vcl_lawsD(13) [OF L]
      by (auto simp: st vts_handle_cfg_def is_exit_def Let_def upd_stats_def split: prod.split)
  next
    case 3
    then show ?thesis
      by (auto simp: vts_handle_cfg_def is_exit_def on_sync_watched [OF L] start_stop_watched [OF L]
          split: test_type.split)
  qed
qed

lemma conn_write_frame:
  assumes "vcl_laws V" and "conn_write V bs (c, w) = (n, c', w')"
  shows "watched V w' = watched V w \<and> fd c' = fd c \<and> is_alloc c' = is_alloc c \<and> cfg c' = cfg c \<and> ds c' = ds c \<and> buf c' = buf c"
  using assms(2) vcl_lawsD(3) [OF assms(1)]
  by (auto simp: conn_write_def split: prod.splits option.splits)

section \<open>One turn\<close>

definition conn_frame :: "conn \<Rightarrow> conn \<Rightarrow> bool" where
  "conn_frame c c' \<longleftrightarrow> fd c' = fd c \<and> is_alloc c' = is_alloc c \<and> cfg c' = cfg c"

lemma conn_read_frame:
  assumes "vcl_laws V" and "vts_conn_read V m (c, w) = Some (rx, c', w')"
  shows "watched V w' = watched V w \<and> conn_frame c c'"
  using assms(2) vcl_lawsD(4,5) [OF assms(1)]
  by (auto simp: vts_conn_read_def conn_frame_def split: prod.splits if_splits option.splits)

lemma config_message_frame:
  "config_message V m c = Some (g, c') \<Longrightarrow> conn_frame c c' \<and> stats c' = stats c"
  by (auto simp: config_message_def vts_conn_read_config_def conn_frame_def split: option.splits if_splits)

lemma conn_write_snd:
  assumes "vcl_laws V"
  shows "watched V (snd (snd (conn_write V bs (c, w)))) = watched V w"
    and "conn_frame c (fst (snd (conn_write V bs (c, w))))" "ds (fst (snd (conn_write V bs (c, w)))) = ds c"
proof -
  obtain n c' w' where r: "conn_write V bs (c, w) = (n, c', w')" by (metis prod_cases3)
  from conn_write_frame [OF assms r] r
  show "watched V (snd (snd (conn_write V bs (c, w)))) = watched V w"
    "conn_frame c (fst (snd (conn_write V bs (c, w))))" "ds (fst (snd (conn_write V bs (c, w)))) = ds c"
    by (simp_all add: conn_frame_def)
qed

lemma reflect_frame:
  assumes L: "vcl_laws V" and "reflect_data V m rx (c, w) = Some (c', w')"
  shows "watched V w' = watched V w \<and> conn_frame c c'"
proof -
  have keep: "watched V (snd (snd (conn_write V bs cw))) = watched V (snd cw) \<and>
      conn_frame (fst cw) (fst (snd (conn_write V bs cw)))" for bs cw
    using conn_write_snd [OF L, where bs = bs and c = "fst cw" and w = "snd cw"] by simp
  have "watched V (snd st) = watched V w \<and> conn_frame c (fst st)" if "reflect_data V m rx (c, w) = Some st" for st
    using that keep [of "fst (ds c)" "(c, w)"] keep [of "take (nat rx) (buf c)" "(c, w)"]
      keep [of "snd (ds (fst (snd (conn_write V (fst (ds c)) (c, w)))))" "snd (conn_write V (fst (ds c)) (c, w))"]
    by (auto simp: reflect_data_def case_prod_unfold conn_frame_def split: if_splits)
  from this [OF assms(2)] show ?thesis by simp
qed

lemma server_rx_frame:
  assumes L: "vcl_laws V" and "vts_server_rx V m rx (c, w) = Some (c', w')"
  shows "watched V w' = watched V w \<and> conn_frame c c'"
proof -
  obtain c1 w1 where 1: "reflect_data V m rx (c, w) = Some (c1, w1)"
    and n: "note_stop V (c1, if m then vppcom_session_free_segments V (fd c1) (ds c1) w1 else w1) = (c', w')"
    using assms(2) by (auto simp: vts_server_rx_def)
  have "watched V w' = watched V w1 \<and> conn_frame c1 c'"
    using n vcl_lawsD(7) [OF L]
    by (auto simp: note_stop_def conn_frame_def vcl_lawsD(8) [OF L] split: if_splits prod.splits)
  with reflect_frame [OF L 1] show ?thesis by (simp add: conn_frame_def)
qed

lemma echo_frame:
  assumes L: "vcl_laws V" and "vts_server_echo V m rx (c, w) = Some (n, c', w')"
  shows "watched V w' = watched V w \<and> conn_frame c c'"
  using assms(2)
  by (auto simp: vts_server_echo_def Let_def conn_frame_def split: if_splits option.splits dest!: conn_write_frame [OF L])

lemma handle_data_frame:
  assumes L: "vcl_laws V" and "handle_data V m rx (c, w) = Some (fl, c', w')"
  shows "watched V w' = watched V w \<and> conn_frame c c' \<and> (fl = Next \<or> fl = Read_again)"
  using assms(2)
  by (auto simp: handle_data_def conn_frame_def split: if_splits option.splits bool.splits
      dest!: server_rx_frame [OF L] echo_frame [OF L])

lemma same_frame_conn: "conn_frame (conn_pool wrk ! i) c \<Longrightarrow> same_frame wrk (upd_conn wrk i (\<lambda>_. c))"
  by (auto simp: conn_frame_def intro: same_frame_upd)

lemma conn_frame_trans: "conn_frame a b \<Longrightarrow> conn_frame b c \<Longrightarrow> conn_frame a c"
  by (simp add: conn_frame_def)

text \<open>A turn keeps the marks and what is watched, or it ends the connection.\<close>

definition turn_kept :: "'w vcl_io \<Rightarrow> flow \<Rightarrow> worker \<times> 'w \<Rightarrow> worker \<times> 'w \<Rightarrow> bool" where
  "turn_kept V fl st st' \<longleftrightarrow>
     same_frame (fst st) (fst st') \<and> watched V (snd st') = watched V (snd st) \<and>
     (fl = Finished \<longrightarrow> nfds (fst st') = 0)"

definition turn_exited :: "'w vcl_io \<Rightarrow> flow \<Rightarrow> nat \<Rightarrow> worker \<times> 'w \<Rightarrow> worker \<times> 'w \<Rightarrow> bool" where
  "turn_exited V fl i st st' \<longleftrightarrow>
     exit_frame i (fst st) (fst st') \<and>
     watched V (snd st') = filter (\<lambda>x. fst x \<noteq> fd (conn_pool (fst st) ! i)) (watched V (snd st)) \<and>
     fl = (if nfds (fst st') = 0 then Finished else Next)"

lemma same_then_exit: "same_frame a b \<Longrightarrow> exit_frame i b c \<Longrightarrow> exit_frame i a c"
  by (simp add: same_frame_def exit_frame_def)

lemma read_turn_step:
  assumes L: "vcl_laws V" and i: "i < length (conn_pool wrk)"
    and r: "read_turn V m i (wrk, w) = Some (fl, st')"
  shows "turn_kept V fl (wrk, w) st' \<or> turn_exited V fl i (wrk, w) st'"
proof -
  obtain rx c w1 where 1: "vts_conn_read V m (conn_pool wrk ! i, w) = Some (rx, c, w1)"
    using r by (auto simp: read_turn_def split: option.splits)
  note f1 = conn_read_frame [OF L 1]
  show ?thesis
  proof (cases "rx \<le> 0")
    case True
    then show ?thesis using r 1 f1 same_frame_conn [of wrk i c]
      by (auto simp: read_turn_def turn_kept_def split: if_splits)
  next
    case False
    obtain g c2 where 2: "config_message V m c = Some (g, c2)"
      using r 1 False by (auto simp: read_turn_def split: option.splits)
    have f2: "conn_frame (conn_pool wrk ! i) c2"
      using config_message_frame [OF 2] f1 conn_frame_trans by blast
    show ?thesis
    proof (cases g)
      case None
      then obtain c3 w3 where 3: "handle_data V m rx (c2, w1) = Some (fl, c3, w3)"
        "st' = (upd_conn wrk i (\<lambda>_. c3), w3)"
        using r 1 2 False by (auto simp: read_turn_def)
      then show ?thesis
        using handle_data_frame [OF L 3(1)] f1 f2 same_frame_conn [OF conn_frame_trans [OF f2]]
        by (auto simp: turn_kept_def)
    next
      case (Some g')
      let ?w = "if m then vppcom_session_free_segments V (fd c2) (ds c2) w1 else w1"
      let ?st = "(upd_conn wrk i (\<lambda>_. c2), ?w)"
      obtain rv wrk4 w4 where 4: "vts_handle_cfg V i g' rx ?st = (rv, wrk4, w4)" by (metis prod_cases3)
      have st': "st' = (wrk4, w4)" "fl = (if nfds wrk4 = 0 then Finished else Next)"
        using r 1 2 4 Some False by (auto simp: read_turn_def Let_def)
      have i': "i < length (conn_pool (fst ?st))" using i by simp
      have w: "watched V (snd ?st) = watched V w" using f1 vcl_lawsD(8) [OF L] by simp
      have fd: "fd (conn_pool (fst ?st) ! i) = fd (conn_pool wrk ! i)"
        using i f2 by (simp add: conn_frame_def)
      show ?thesis
        using handle_cfg_frame [OF i', of V g' rx] handle_cfg_watched [OF L i', of g' rx] 4 st'
          same_frame_conn [OF f2] w fd
        by (cases "is_exit V g' rx")
          (auto simp: turn_kept_def turn_exited_def intro: same_then_exit same_frame_trans)
    qed
  qed
qed

lemma turn_kept_then:
  assumes "turn_kept V fl st st1" and "turn_kept V fl' st1 st2 \<or> turn_exited V fl' i st1 st2"
    and i: "i < length (conn_pool (fst st))"
  shows "turn_kept V fl' st st2 \<or> turn_exited V fl' i st st2"
proof -
  have "same_frame (fst st) (fst st1)" using assms(1) by (simp add: turn_kept_def)
  from same_frame_slot(1) [OF this i] have "fd (conn_pool (fst st1) ! i) = fd (conn_pool (fst st) ! i)" .
  then show ?thesis
    using assms(1,2) by (auto simp: turn_kept_def turn_exited_def intro: same_frame_trans same_then_exit)
qed

lemma read_again_step:
  assumes L: "vcl_laws V"
  shows "read_again k V m i st = Some (fl, st') \<Longrightarrow> i < length (conn_pool (fst st)) \<Longrightarrow>
    fl \<noteq> Read_again \<and> (turn_kept V fl st st' \<or> turn_exited V fl i st st')"
proof (induction k arbitrary: st)
  case (Suc k)
  obtain wrk w where st: "st = (wrk, w)" by fastforce
  obtain f1 st1 where t: "read_turn V m i st = Some (f1, st1)"
    using Suc.prems(1) by (auto split: option.splits)
  have s: "turn_kept V f1 st st1 \<or> turn_exited V f1 i st st1"
    using read_turn_step [OF L] t Suc.prems(2) st by fastforce
  show ?case
  proof (cases "f1 = Read_again")
    case True
    then have kept: "turn_kept V f1 st st1" using s by (auto simp: turn_exited_def split: if_splits)
    then have "length (conn_pool (fst st1)) = length (conn_pool (fst st))"
      by (simp add: turn_kept_def same_frame_length)
    then show ?thesis
      using Suc.IH [of st1] Suc.prems t True turn_kept_then [OF kept] by auto
  next
    case False
    then show ?thesis using Suc.prems t s by simp
  qed
qed simp

section \<open>The invariant\<close>

text \<open>An entry of the watched list is the listener's, or a slot's that is in use: the descriptor is
  the slot's and the datum its index.\<close>

definition entry_ok :: "worker \<Rightarrow> int \<times> u64 \<Rightarrow> bool" where
  "entry_ok wrk x \<longleftrightarrow>
     (if fst x = listen_fd wrk then (ucast (snd x) :: u32) = - 1
      else \<exists>i < length (conn_pool wrk). fst (marks wrk ! i) \<noteq> 0 \<and> snd x = word_of_nat i \<and> snd (marks wrk ! i) = fst x)"

definition worker_ok :: "'w vcl_io \<Rightarrow> worker \<times> 'w \<Rightarrow> bool" where
  "worker_ok V st \<longleftrightarrow>
     pool_ok st \<and> length (conn_pool (fst st)) < 2 ^ 32 \<and> distinct (map fst (watched V (snd st))) \<and>
     listen_fd (fst st) \<in> fst ` set (watched V (snd st)) \<and>
     (\<forall>x \<in> set (watched V (snd st)). entry_ok (fst st) x) \<and>
     nfds (fst st) = int (length (watched V (snd st))) - 1"

lemma entry_ok_marks:
  "marks wrk' = marks wrk \<Longrightarrow> listen_fd wrk' = listen_fd wrk \<Longrightarrow> entry_ok wrk' x = entry_ok wrk x"
proof -
  assume m: "marks wrk' = marks wrk" and l: "listen_fd wrk' = listen_fd wrk"
  have "length (conn_pool wrk') = length (conn_pool wrk)" using m by (metis length_marks)
  with m l show ?thesis by (simp add: entry_ok_def del: marks_nth)
qed

lemma worker_ok_same:
  assumes "worker_ok V (wrk, w)" and "same_frame wrk wrk'" and "watched V w' = watched V w"
  shows "worker_ok V (wrk', w')"
  using assms same_frame_length [OF assms(2)] entry_ok_marks [of wrk' wrk]
  by (simp add: worker_ok_def same_frame_def pool_ok_def)

text \<open>A watched connection's datum and slot.\<close>

definition slot_of :: "'w vcl_io \<Rightarrow> worker \<times> 'w \<Rightarrow> nat \<Rightarrow> bool" where
  "slot_of V st i \<longleftrightarrow>
     i < length (conn_pool (fst st)) \<and> fst (marks (fst st) ! i) \<noteq> 0 \<and>
     snd (marks (fst st) ! i) \<noteq> listen_fd (fst st) \<and>
     (snd (marks (fst st) ! i), word_of_nat i) \<in> set (watched V (snd st))"

lemma small_index:
  assumes "i < 2 ^ 32 - 1"
  shows "(ucast (word_of_nat i :: u64) :: u32) \<noteq> - 1" and "unat (ucast (word_of_nat i :: u64) :: u32) = i"
proof -
  have "unat (word_of_nat i :: u64) = i" using assms by (simp add: unat_of_nat)
  then show u: "unat (ucast (word_of_nat i :: u64) :: u32) = i"
    using assms by (simp add: unsigned_ucast_eq take_bit_nat_eq_self)
  have m: "unat (- 1 :: u32) = 2 ^ 32 - 1" by (simp add: unsigned_minus_1_eq_mask mask_eq_exp_minus_1)
  show "(ucast (word_of_nat i :: u64) :: u32) \<noteq> - 1"
  proof
    assume "(ucast (word_of_nat i :: u64) :: u32) = - 1"
    with u m have "i = 2 ^ 32 - 1" by simp
    with assms show False by simp
  qed
qed

lemma watched_slot:
  assumes ok: "worker_ok V (wrk, w)" and x: "x \<in> set (watched V w)" and n: "(ucast (snd x) :: u32) \<noteq> - 1"
  shows "slot_of V (wrk, w) (unat (ucast (snd x) :: u32)) \<and> snd (marks wrk ! unat (ucast (snd x) :: u32)) = fst x"
proof -
  have "entry_ok wrk x" using ok x by (simp add: worker_ok_def)
  with n obtain i where i: "fst x \<noteq> listen_fd wrk" "i < length (conn_pool wrk)" "fst (marks wrk ! i) \<noteq> 0"
    "snd x = word_of_nat i" "snd (marks wrk ! i) = fst x"
    by (auto simp: entry_ok_def split: if_splits)
  have "i < 2 ^ 32" using i(2) ok by (simp add: worker_ok_def)
  then have "unat (ucast (snd x) :: u32) = i"
    using i(4) by (simp add: unsigned_ucast_eq unat_of_nat take_bit_nat_eq_self)
  with i x show ?thesis by (auto simp: slot_of_def prod_eq_iff simp flip: i(4))
qed

lemma filter_one:
  "distinct (map fst xs) \<Longrightarrow> x \<in> set xs \<Longrightarrow> Suc (length (filter (\<lambda>y. fst y \<noteq> fst x) xs)) = length xs"
proof (induction xs)
  case (Cons y xs)
  show ?case
  proof (cases "y = x")
    case True
    then have "fst x \<notin> fst ` set xs" using Cons.prems(1) by simp
    then have "filter (\<lambda>y. fst y \<noteq> fst x) xs = xs" by (intro filter_True) (metis image_eqI)
    with True show ?thesis by simp
  next
    case False
    then have "fst y \<noteq> fst x" using Cons.prems by (auto simp: rev_image_eqI)
    with False Cons show ?thesis by auto
  qed
qed simp

text \<open>Closing the descriptor of slot \<open>i\<close>, with its mark kept or cleared.\<close>

lemma worker_ok_close:
  assumes ok: "worker_ok V (wrk, w)" and s: "slot_of V (wrk, w) i"
    and m: "marks wrk' = marks wrk \<or> marks wrk' = (marks wrk)[i := (0, 0)]"
    and f: "conn_pool_size wrk' = conn_pool_size wrk" "nfds wrk' = nfds wrk - 1" "listen_fd wrk' = listen_fd wrk"
    and w': "watched V w' = filter (\<lambda>x. fst x \<noteq> fd (conn_pool wrk ! i)) (watched V w)"
  shows "worker_ok V (wrk', w')"
proof -
  have fd: "snd (marks wrk ! i) = fd (conn_pool wrk ! i)" using s by (simp add: slot_of_def)
  have len: "length (conn_pool wrk') = length (conn_pool wrk)" using m by (metis length_list_update length_marks)
  have "entry_ok wrk' x" if x: "x \<in> set (watched V w')" for x
  proof -
    have "entry_ok wrk x" "fst x \<noteq> snd (marks wrk ! i)" using x w' ok fd by (auto simp: worker_ok_def)
    moreover from this(2) have "marks wrk' ! j = marks wrk ! j" if "j < length (conn_pool wrk)" "snd (marks wrk ! j) = fst x" for j
      using that m by (cases "j = i") (auto simp del: marks_nth)
    ultimately show ?thesis using f len
      by (auto simp: entry_ok_def simp del: marks_nth split: if_splits)
  qed
  moreover have "distinct (map fst (watched V w'))"
    using ok w' by (auto simp: worker_ok_def distinct_map inj_on_def)
  moreover have "listen_fd wrk' \<in> fst ` set (watched V w')"
    using ok s w' fd f(3) by (auto simp: worker_ok_def slot_of_def)
  moreover have "Suc (length (watched V w')) = length (watched V w)"
    using filter_one [of "watched V w" "(snd (marks wrk ! i), word_of_nat i)"] ok s w' fd
    by (simp add: worker_ok_def slot_of_def)
  ultimately show ?thesis using ok f len by (simp add: worker_ok_def pool_ok_def)
qed

section \<open>New clients\<close>

text \<open>Slots in use keep their marks; others may change or be added.\<close>

definition slots_kept :: "worker \<Rightarrow> worker \<Rightarrow> bool" where
  "slots_kept wrk wrk' \<longleftrightarrow>
     length (conn_pool wrk) \<le> length (conn_pool wrk') \<and> listen_fd wrk' = listen_fd wrk \<and>
     (\<forall>i < length (conn_pool wrk). fst (marks wrk ! i) \<noteq> 0 \<longrightarrow> marks wrk' ! i = marks wrk ! i)"

lemma entry_ok_kept:
  assumes k: "slots_kept wrk wrk'" and e: "entry_ok wrk x"
  shows "entry_ok wrk' x"
proof (cases "fst x = listen_fd wrk")
  case True
  then show ?thesis using k e by (simp add: entry_ok_def slots_kept_def)
next
  case False
  then obtain i where i: "i < length (conn_pool wrk)" "fst (marks wrk ! i) \<noteq> 0"
    "snd x = word_of_nat i" "snd (marks wrk ! i) = fst x"
    using e by (auto simp: entry_ok_def)
  then have "marks wrk' ! i = marks wrk ! i" "i < length (conn_pool wrk')"
    using k by (auto simp: slots_kept_def simp del: marks_nth)
  then show ?thesis using i False k
    by (auto simp: entry_ok_def slots_kept_def simp del: marks_nth intro!: exI [of _ i])
qed

lemma worker_ok_kept:
  assumes "worker_ok V (wrk, w)" and "slots_kept wrk wrk'" and "pool_ok (wrk', w')"
    and "length (conn_pool wrk') < 2 ^ 32" and "nfds wrk' = nfds wrk" and "watched V w' = watched V w"
  shows "worker_ok V (wrk', w')"
  using assms entry_ok_kept [OF assms(2)] by (auto simp: worker_ok_def slots_kept_def)

lemma fresh_conns_watched:
  "vcl_laws V \<Longrightarrow> fresh_conns n V w = (cs, w') \<Longrightarrow> watched V w' = watched V w"
proof (induction n arbitrary: w cs w')
  case (Suc n)
  obtain c w1 where 1: "fresh_conn V w = (c, w1)" by fastforce
  obtain cs1 w2 where 2: "fresh_conns n V w1 = (cs1, w2)" by fastforce
  have "watched V w1 = watched V w"
    using 1 vcl_lawsD(2) [OF Suc.prems(1)] by (auto simp: fresh_conn_def split: prod.splits)
  with Suc.IH [OF Suc.prems(1) 2] Suc.prems(2) 1 2 show ?case by simp
qed simp

lemma expand_kept:
  assumes L: "vcl_laws V" and ok: "worker_ok V (wrk, w)" and e: "conn_pool_expand V n (wrk, w) = (wrk', w')"
  shows "worker_ok V (wrk', w')" and "watched V w' = watched V w"
proof -
  obtain b w1 where b: "realloc_ok V (conn_pool_size wrk + n) w = (b, w1)" by fastforce
  note law = vcl_lawsD(1) [OF L b]
  have "watched V w' = watched V w \<and> worker_ok V (wrk', w')"
  proof (cases b)
    case False
    then have "wrk' = wrk" "w' = w1" using e b by (simp_all add: conn_pool_expand_def)
    then show ?thesis using law worker_ok_same [OF ok same_frame_refl] by simp
  next
    case True
    obtain cs w2 where cs: "fresh_conns n V w1 = (cs, w2)" by fastforce
    have w': "wrk' = wrk\<lparr>conn_pool := conn_pool wrk @ cs, conn_pool_size := conn_pool_size wrk + n\<rparr>" "w' = w2"
      using e b True cs by (simp_all add: conn_pool_expand_def)
    have w: "watched V w' = watched V w" using law fresh_conns_watched [OF L cs] w' by simp
    have "worker_ok V (wrk', w')"
      using ok fresh_conns_free [OF cs] law True w w'
      by (intro worker_ok_kept [OF ok]) (auto simp: slots_kept_def marks_def nth_append pool_ok_def worker_ok_def)
    with w show ?thesis by simp
  qed
  then show "worker_ok V (wrk', w')" "watched V w' = watched V w" by simp_all
qed

lemma take_conn_kept:
  assumes "find_free (conn_pool wrk) (conn_pool_size wrk) = Some i"
  shows "slots_kept wrk (upd_conn (take_conn i wrk) i f)"
  using find_free_Some [OF assms]
  by (auto simp: slots_kept_def take_conn_def upd_conn_def marks_def nth_list_update)

lemma alloc_kept:
  assumes L: "vcl_laws V" and ok: "worker_ok V (wrk, w)" and a: "conn_pool_alloc V (wrk, w) = (r, wrk', w')"
  shows "watched V w' = watched V w" and "r = None \<Longrightarrow> worker_ok V (wrk', w')"
    and "r = Some i \<Longrightarrow> \<exists>wrk1. worker_ok V (wrk1, w') \<and> wrk' = take_conn i wrk1 \<and>
      find_free (conn_pool wrk1) (conn_pool_size wrk1) = Some i \<and> nfds wrk1 = nfds wrk \<and> epfd wrk1 = epfd wrk \<and>
      listen_fd wrk1 = listen_fd wrk"
proof -
  obtain wrk1 w1 where e: "conn_pool_expand V (2 * conn_pool_size wrk) (wrk, w) = (wrk1, w1)" by fastforce
  note k = expand_kept [OF L ok e]
  have f: "nfds wrk1 = nfds wrk \<and> epfd wrk1 = epfd wrk \<and> listen_fd wrk1 = listen_fd wrk"
    using expand_shape [OF e] by auto
  show "watched V w' = watched V w" "r = None \<Longrightarrow> worker_ok V (wrk', w')"
    using a e k by (auto simp: conn_pool_alloc_def split: option.splits)
  show "\<exists>wrk1. worker_ok V (wrk1, w') \<and> wrk' = take_conn i wrk1 \<and>
      find_free (conn_pool wrk1) (conn_pool_size wrk1) = Some i \<and> nfds wrk1 = nfds wrk \<and> epfd wrk1 = epfd wrk \<and>
      listen_fd wrk1 = listen_fd wrk" if "r = Some i"
    using a e k(1) ok that f by (auto simp: conn_pool_alloc_def split: option.splits)
qed

lemma new_client_ok:
  assumes L: "vcl_laws V" and ok: "worker_ok V (wrk, w)" and n: "vts_new_client V (wrk, w) = (wrk', w')"
  shows "worker_ok V (wrk', w') \<and> set (watched V w) \<subseteq> set (watched V w')"
proof -
  obtain r wrk1 w1 where a: "conn_pool_alloc V (wrk, w) = (r, wrk1, w1)" by (metis prod_cases3)
  note k = alloc_kept [OF L ok a]
  show ?thesis
  proof (cases r)
    case None
    then show ?thesis using n a k by (auto simp: vts_new_client_def)
  next
    case (Some i)
    then obtain wrk0 where 0: "worker_ok V (wrk0, w1)" "wrk1 = take_conn i wrk0"
      "find_free (conn_pool wrk0) (conn_pool_size wrk0) = Some i" "epfd wrk0 = epfd wrk" "listen_fd wrk0 = listen_fd wrk"
      using k(3) by blast
    note ff = find_free_Some [OF 0(3)]
    obtain cf b w2 where c: "vppcom_session_accept V (listen_fd wrk1) (ip (conn_pool wrk1 ! i)) w1 = (cf, b, w2)"
      by (metis prod_cases3)
    note law = vcl_lawsD(11) [OF L c]
    define f where "f = (\<lambda>c :: conn. if cf < 0 then c\<lparr>ip := b\<rparr> else c\<lparr>ip := b, fd := cf\<rparr>)"
    have pool: "length (conn_pool wrk2) = conn_pool_size wrk2" "length (conn_pool wrk2) < 2 ^ 32"
      if "conn_pool wrk2 = conn_pool (upd_conn wrk1 i f)" "conn_pool_size wrk2 = conn_pool_size wrk1" for wrk2
      using that 0(1) by (simp_all add: pool_ok_def worker_ok_def 0(2) take_conn_def)
    have nf: "nfds wrk1 = nfds wrk0" "listen_fd wrk1 = listen_fd wrk0" "epfd wrk1 = epfd wrk0"
      "conn_pool_size wrk1 = conn_pool_size wrk0" by (simp_all add: 0(2) take_conn_def)
    show ?thesis
    proof (cases "cf < 0")
      case True
      then have w': "wrk' = upd_conn wrk1 i f" "w' = w2" using n a Some c by (simp_all add: vts_new_client_def f_def)
      then show ?thesis
        using worker_ok_kept [OF 0(1) take_conn_kept [OF 0(3), of f]] pool [of wrk'] law k(1) nf by (simp add: 0(2) pool_ok_def)
    next
      case False
      obtain rv w3 where t: "vppcom_epoll_ctl_add V (epfd wrk1) cf \<lparr>events = EPOLLIN, ev_data = word_of_nat i\<rparr> w2 = (rv, w3)"
        by fastforce
      note add = vcl_lawsD(12) [OF L t]
      have w': "w' = w3" "wrk' = (if rv < 0 then upd_conn wrk1 i f else (upd_conn wrk1 i f)\<lparr>nfds := nfds wrk1 + 1\<rparr>)"
        using n a Some c t False by (auto simp: vts_new_client_def Let_def f_def comp_def split: if_splits)
      have kept: "worker_ok V (upd_conn wrk1 i f, w2)"
        using worker_ok_kept [OF 0(1) take_conn_kept [OF 0(3), of f]] pool [of "upd_conn wrk1 i f"] law nf
        by (simp add: 0(2) pool_ok_def)
      show ?thesis
      proof (cases "rv < 0")
        case True
        then show ?thesis using kept w' add law k(1) worker_ok_same [OF kept same_frame_refl, of w3] by simp
      next
        case rv: False
        have m: "i < length (conn_pool wrk')" "marks wrk' ! i = (1, cf)"
          using ff rv w' False by (simp_all add: 0(2) take_conn_def f_def upd_conn_def)
        have new: "cf \<notin> fst ` set (watched V w2)" "cf \<noteq> listen_fd wrk'"
          using law False kept w' rv by (auto simp: worker_ok_def nf)
        have ent: "entry_ok wrk' (cf, word_of_nat i)"
          using m new(2) by (auto simp: entry_ok_def simp del: marks_nth)
        have old: "entry_ok wrk' x = entry_ok (upd_conn wrk1 i f) x" for x
          using w' rv by (intro entry_ok_marks) (simp_all add: marks_def)
        have wt: "watched V w3 = watched V w2 @ [(cf, word_of_nat i)]" using add rv by simp
        show ?thesis
          using kept new ent old w' rv k(1) law pool [of wrk']
          by (auto simp: worker_ok_def wt nf pool_ok_def)
      qed
    qed
  qed
qed

section \<open>Events\<close>

definition hangs_up :: "epoll_event \<Rightarrow> bool" where
  "hangs_up e \<longleftrightarrow> events e AND (EPOLLHUP OR EPOLLRDHUP) \<noteq> 0"

text \<open>The listener is never reported as hung up.\<close>

definition listener_stays :: "'w vcl_io \<Rightarrow> bool" where
  "listener_stays V \<longleftrightarrow>
     (\<forall>ep m w. \<forall>e \<in> set (fst (snd (vppcom_epoll_wait V ep m w))). ev_u32 e = - 1 \<longrightarrow> \<not> hangs_up e)"

definition watched_event :: "'w vcl_io \<Rightarrow> 'w \<Rightarrow> epoll_event \<Rightarrow> bool" where
  "watched_event V w e \<longleftrightarrow> ev_data e \<in> snd ` set (watched V w) \<and> (ev_u32 e = - 1 \<longrightarrow> \<not> hangs_up e)"

lemma watched_event_slot:
  assumes "worker_ok V (wrk, w)" and "watched_event V w e" and "ev_u32 e \<noteq> - 1"
  shows "slot_of V (wrk, w) (unat (ev_u32 e))" and "ev_data e = word_of_nat (unat (ev_u32 e))"
proof -
  obtain x where x: "x \<in> set (watched V w)" "snd x = ev_data e"
    using assms(2) by (auto simp: watched_event_def)
  have n: "(ucast (snd x) :: u32) \<noteq> - 1" using x(2) assms(3) by (simp add: ev_u32_def)
  from watched_slot [OF assms(1) x(1) n] x(2) show s: "slot_of V (wrk, w) (unat (ev_u32 e))"
    by (simp add: ev_u32_def)
  have m: "snd (marks wrk ! unat (ev_u32 e)) = fst x"
    using watched_slot [OF assms(1) x(1) n] x(2) by (simp add: ev_u32_def)
  have "distinct (map fst (watched V w))" using assms(1) by (simp add: worker_ok_def)
  moreover have "(fst x, word_of_nat (unat (ev_u32 e))) \<in> set (watched V w)"
    using s m by (simp add: slot_of_def)
  ultimately have "word_of_nat (unat (ev_u32 e)) = snd x"
    using x(1) eq_key_imp_eq_value by (metis prod.collapse)
  then show "ev_data e = word_of_nat (unat (ev_u32 e))" using x(2) by simp
qed

text \<open>What stays watched when slot \<open>i\<close>'s descriptor is closed.\<close>

lemma others_watched:
  assumes ok: "worker_ok V (wrk, w)" and s: "slot_of V (wrk, w) i" and d: "d \<in> snd ` set (watched V w)"
    and n: "d \<noteq> word_of_nat i"
  shows "d \<in> snd ` set (filter (\<lambda>x. fst x \<noteq> fd (conn_pool wrk ! i)) (watched V w))"
proof -
  obtain x where x: "x \<in> set (watched V w)" "snd x = d" using d by auto
  have "distinct (map fst (watched V w))" using ok by (simp add: worker_ok_def)
  moreover have "(fd (conn_pool wrk ! i), word_of_nat i) \<in> set (watched V w)" using s by (auto simp: slot_of_def)
  ultimately have "fst x \<noteq> fd (conn_pool wrk ! i)"
    using x n eq_key_imp_eq_value by (metis prod.collapse)
  with x show ?thesis by force
qed

definition step_ok :: "'w vcl_io \<Rightarrow> epoll_event \<Rightarrow> 'w \<Rightarrow> flow \<Rightarrow> worker \<times> 'w \<Rightarrow> bool" where
  "step_ok V e w fl st' \<longleftrightarrow>
     worker_ok V st' \<and> fl \<noteq> Read_again \<and> (fl = Finished \<longrightarrow> nfds (fst st') = 0) \<and>
     (\<forall>d \<in> snd ` set (watched V w). d \<noteq> ev_data e \<longrightarrow> d \<in> snd ` set (watched V (snd st')))"

lemma conn_event_ok:
  assumes L: "vcl_laws V" and ok: "worker_ok V (wrk, w)" and e: "watched_event V w e"
    and r: "conn_event k V m e (wrk, w) = Some (fl, wrk', w')"
  shows "step_ok V e w fl (wrk', w')"
proof (cases "ev_u32 e = - 1")
  case True
  then have hup: "events e AND (EPOLLHUP OR EPOLLRDHUP) = 0" using e by (simp add: watched_event_def hangs_up_def)
  then have "fl = Next" "vts_new_client V (wrk, w) = (wrk', w')"
    using r True by (simp_all add: conn_event_def Let_def)
  then show ?thesis using new_client_ok [OF L ok] by (fastforce simp: step_ok_def)
next
  case False
  let ?i = "unat (ev_u32 e)"
  note s = watched_event_slot(1) [OF ok e False] and d = watched_event_slot(2) [OF ok e False]
  have i: "?i < length (conn_pool (fst (wrk, w)))" using s by (simp add: slot_of_def)
  have keep: "\<forall>x \<in> snd ` set (watched V w). x \<noteq> ev_data e \<longrightarrow>
      x \<in> snd ` set (filter (\<lambda>x. fst x \<noteq> fd (conn_pool wrk ! ?i)) (watched V w))"
    using others_watched [OF ok s] d by metis
  show ?thesis
  proof (cases "hangs_up e")
    case True
    then have w': "wrk' = wrk\<lparr>nfds := nfds wrk - 1\<rparr>" "w' = vppcom_session_close V (fd (conn_pool wrk ! ?i)) w"
      "fl = (if nfds wrk' = 0 then Finished else Next)"
      using r i by (auto simp: conn_event_def hangs_up_def Let_def)
    then show ?thesis
      using worker_ok_close [OF ok s, of wrk' w'] vcl_lawsD(13) [OF L] keep
      by (simp add: step_ok_def marks_def)
  next
    case False
    then have "fl = Failed \<and> wrk' = wrk \<and> w' = w \<or> read_again k V m ?i (wrk, w) = Some (fl, wrk', w')"
      using r i \<open>ev_u32 e \<noteq> - 1\<close> by (auto simp: conn_event_def hangs_up_def Let_def split: if_splits)
    then show ?thesis
    proof
      assume "fl = Failed \<and> wrk' = wrk \<and> w' = w"
      then show ?thesis using ok by (simp add: step_ok_def)
    next
      assume ra: "read_again k V m ?i (wrk, w) = Some (fl, wrk', w')"
      have "turn_kept V fl (wrk, w) (wrk', w') \<or> turn_exited V fl ?i (wrk, w) (wrk', w')" and n: "fl \<noteq> Read_again"
        using read_again_step [OF L ra i] by auto
      from this(1) show ?thesis
      proof
        assume "turn_kept V fl (wrk, w) (wrk', w')"
        then show ?thesis using worker_ok_same [OF ok, of wrk' w'] n by (simp add: step_ok_def turn_kept_def)
      next
        assume "turn_exited V fl ?i (wrk, w) (wrk', w')"
        then show ?thesis
          using worker_ok_close [OF ok s, of wrk' w'] keep
          by (simp add: step_ok_def turn_exited_def exit_frame_def)
      qed
    qed
  qed
qed

lemma serve_dgram_watched:
  assumes L: "vcl_laws V" and "serve_dgram V wrk (s, w) = Some (s', w')"
  shows "watched V w' = watched V w"
proof -
  obtain rx d w1 where 1: "vppcom_session_read_segments V (listen_fd wrk) w = (rx, d, w1)" by (metis prod_cases3)
  let ?w = "vppcom_session_free_segments V (listen_fd wrk) d w1"
  obtain n1 w2 where 2: "clib_cpu_time_now V ?w = (n1, w2)" by fastforce
  obtain n2 w3 where 3: "clib_cpu_time_now V w2 = (n2, w3)" by fastforce
  have "watched V w3 = watched V w" "watched V w2 = watched V w"
    using vcl_lawsD(9) [OF L 1] vcl_lawsD(10) [OF L 2] vcl_lawsD(10) [OF L 3] vcl_lawsD(8) [OF L] by simp_all
  then show ?thesis
    using assms(2) 1 2 3 by (auto simp: serve_dgram_def Let_def split: option.splits prod.splits)
qed

lemma vts_event_ok:
  assumes L: "vcl_laws V" and ok: "worker_ok V (wrk, w)" and e: "watched_event V w e"
    and r: "vts_event k V vsm e (wrk, s, w) = Some (fl, wrk', s', w')"
  shows "step_ok V e w fl (wrk', w')"
proof (cases "proto (vcfg vsm) = VPPCOM_PROTO_UDP \<and> EPOLLIN AND events e \<noteq> 0")
  case True
  then have "wrk' = wrk" "fl = Next" "watched V w' = watched V w"
    using r serve_dgram_watched [OF L] by (auto simp: vts_event_def)
  then show ?thesis using worker_ok_same [OF ok same_frame_refl] by (simp add: step_ok_def)
next
  case False
  then have "conn_event k V (use_ds vsm \<noteq> 0) e (wrk, w) = Some (fl, wrk', w')"
    using r by (auto simp: vts_event_def)
  then show ?thesis by (rule conn_event_ok [OF L ok e])
qed

lemma vts_events_ok:
  assumes L: "vcl_laws V"
  shows "vts_events k V vsm es (wrk, s, w) = Some (fl, wrk', s', w') \<Longrightarrow> worker_ok V (wrk, w) \<Longrightarrow>
    (\<forall>e \<in> set es. watched_event V w e) \<Longrightarrow> distinct (map ev_data es) \<Longrightarrow>
    worker_ok V (wrk', w') \<and> (fl = Finished \<longrightarrow> nfds wrk' = 0) \<and> fl \<noteq> Read_again"
proof (induction es arbitrary: wrk s w)
  case (Cons e es)
  obtain f1 wrk1 s1 w1 where 1: "vts_event k V vsm e (wrk, s, w) = Some (f1, wrk1, s1, w1)"
    using Cons.prems(1) by (auto split: option.splits)
  have st: "step_ok V e w f1 (wrk1, w1)" using vts_event_ok [OF L Cons.prems(2) _ 1] Cons.prems(3) by simp
  show ?case
  proof (cases "f1 = Next")
    case True
    have "watched_event V w1 e'" if "e' \<in> set es" for e'
    proof -
      have "ev_data e' \<noteq> ev_data e" using Cons.prems(4) that by (auto simp: rev_image_eqI)
      moreover have "watched_event V w e'" using Cons.prems(3) that by simp
      ultimately show ?thesis using st unfolding step_ok_def watched_event_def snd_conv by blast
    qed
    then show ?thesis using Cons.IH [of wrk1 s1 w1] Cons.prems 1 True st by (simp add: step_ok_def)
  next
    case False
    then show ?thesis using Cons.prems 1 st by (auto simp: step_ok_def)
  qed
qed simp

lemma wait_events_ok:
  assumes L: "vcl_laws V" and H: "listener_stays V" and w: "vppcom_epoll_wait V ep m w = (n, evs, w')" and "0 < n"
    and ok: "worker_ok V (wrk, w)"
  defines "wrk' \<equiv> wrk\<lparr>wait_events := evs @ drop (length evs) (wait_events wrk)\<rparr>"
  shows "worker_ok V (wrk', w')" and "take (nat n) (wait_events wrk') = evs"
    and "\<forall>e \<in> set evs. watched_event V w' e" and "distinct (map ev_data evs)"
proof -
  note law = vcl_lawsD(14) [OF L w]
  show "worker_ok V (wrk', w')"
    using worker_ok_kept [OF ok, of wrk' w'] law ok
    by (simp add: wrk'_def slots_kept_def marks_def pool_ok_def worker_ok_def)
  show "take (nat n) (wait_events wrk') = evs" "distinct (map ev_data evs)"
    using law assms(4) by (simp_all add: wrk'_def)
  have "\<not> hangs_up e" if "e \<in> set evs" "ev_u32 e = - 1" for e
    using H that w unfolding listener_stays_def by (metis fst_conv snd_conv)
  then show "\<forall>e \<in> set evs. watched_event V w' e" using law by (auto simp: watched_event_def)
qed

lemma vts_loop_ok:
  assumes L: "vcl_laws V" and H: "listener_stays V"
  shows "vts_loop k V vsm (wrk, s, w) = Some (fl, wrk', s', w') \<Longrightarrow> worker_ok V (wrk, w) \<Longrightarrow>
    worker_ok V (wrk', w') \<and> (fl = Finished \<and> nfds wrk' = 0 \<or> fl = Failed)"
proof (induction k arbitrary: wrk s w)
  case (Suc k)
  obtain n evs w1 where w1: "vppcom_epoll_wait V (epfd wrk) (max_epoll_events V) w = (n, evs, w1)"
    by (metis prod_cases3)
  let ?wrk = "wrk\<lparr>wait_events := evs @ drop (length evs) (wait_events wrk)\<rparr>"
  have ok1: "worker_ok V (?wrk, w1)"
    using worker_ok_kept [OF Suc.prems(2), of ?wrk w1] vcl_lawsD(14) [OF L w1] Suc.prems(2)
    by (simp add: slots_kept_def marks_def pool_ok_def worker_ok_def)
  consider "n < 0" | "n = 0" | "0 < n" by linarith
  then show ?case
  proof cases
    case 1
    then show ?thesis using Suc.prems(1) w1 ok1 by auto
  next
    case 2
    then show ?thesis using Suc.IH [of ?wrk s w1] Suc.prems(1) w1 ok1 by (simp add: Let_def)
  next
    case 3
    note E = wait_events_ok [OF L H w1 3 Suc.prems(2)]
    obtain f1 wrk2 s2 w2 where 2: "vts_events k V vsm evs (?wrk, s, w1) = Some (f1, wrk2, s2, w2)"
      and r: "(if f1 = Next then vts_loop k V vsm (wrk2, s2, w2) else Some (f1, wrk2, s2, w2)) = Some (fl, wrk', s', w')"
      using Suc.prems(1) w1 3 E(2) by (auto simp: Let_def split: if_splits option.splits)
    from vts_events_ok [OF L 2 E(1) E(3,4)] r Suc.IH [of wrk2 s2 w2] show ?thesis
      by (cases f1) (auto split: if_splits)
  qed
qed simp

section \<open>From the start of a worker\<close>

text \<open>The calls that set up the listener watch nothing themselves.\<close>

definition setup_laws :: "'w vcl_io \<Rightarrow> bool" where
  "setup_laws V \<longleftrightarrow>
     (\<forall>w. watched V (snd (vppcom_worker_register V w)) = watched V w) \<and>
     (\<forall>p w. watched V (snd (vppcom_session_create V p w)) = watched V w) \<and>
     (\<forall>f w. watched V (vppcom_session_tls_add_cert V f w) = watched V w) \<and>
     (\<forall>f w. watched V (vppcom_session_tls_add_key V f w) = watched V w) \<and>
     (\<forall>f e w. watched V (snd (vppcom_session_bind V f e w)) = watched V w) \<and>
     (\<forall>f n w. watched V (snd (vppcom_session_listen V f n w)) = watched V w) \<and>
     (\<forall>w. watched V (snd (vppcom_epoll_create V w)) = watched V w)"

lemma setup_lawsD:
  assumes "setup_laws V"
  shows "vppcom_worker_register V w = (r, w') \<Longrightarrow> watched V w' = watched V w"
    and "vppcom_session_create V p w = (r, w') \<Longrightarrow> watched V w' = watched V w"
    and "watched V (vppcom_session_tls_add_cert V f w) = watched V w"
    and "watched V (vppcom_session_tls_add_key V f w) = watched V w"
    and "vppcom_session_bind V f e w = (r, w') \<Longrightarrow> watched V w' = watched V w"
    and "vppcom_session_listen V f n w = (r, w') \<Longrightarrow> watched V w' = watched V w"
    and "vppcom_epoll_create V w = (r, w') \<Longrightarrow> watched V w' = watched V w"
  using assms unfolding setup_laws_def by (metis snd_conv)+

lemma bind_listener_frame:
  assumes S: "setup_laws V" and b: "bind_listener V vc (wrk, w) = Inr (wrk', w')"
  shows "wrk' = wrk \<and> watched V w' = watched V w"
proof -
  let ?w = "if proto vc = VPPCOM_PROTO_TLS
    then vppcom_session_tls_add_key V (listen_fd wrk) (vppcom_session_tls_add_cert V (listen_fd wrk) w) else w"
  have "watched V ?w = watched V w" using setup_lawsD(3,4) [OF S] by simp
  then show ?thesis
    using b setup_lawsD(5,6) [OF S]
    by (fastforce simp: bind_listener_def Let_def split: prod.splits if_splits)
qed

lemma add_listener_frame:
  assumes L: "vcl_laws V" and S: "setup_laws V" and a: "add_listener V junk (wrk, w) = Inr (wrk', w')"
  shows "\<exists>ep. wrk' = wrk\<lparr>epfd := ep\<rparr> \<and> watched V w' = watched V w @ [(listen_fd wrk, listen_data junk)]"
proof -
  obtain ep w1 where 1: "vppcom_epoll_create V w = (ep, w1)" by fastforce
  obtain rv w2 where 2: "vppcom_epoll_ctl_add V ep (listen_fd wrk)
      \<lparr>events = EPOLLIN, ev_data = listen_data junk\<rparr> w1 = (rv, w2)" by fastforce
  from a 1 2 have "wrk' = wrk\<lparr>epfd := ep\<rparr>" "w' = w2" "\<not> rv < 0"
    by (auto simp: add_listener_def Let_def split: if_splits)
  then show ?thesis using setup_lawsD(7) [OF S 1] vcl_lawsD(12) [OF L 2] by auto
qed

lemma listen_data_u32: "(ucast (listen_data junk) :: u32) = - 1"
  by (rule bit_word_eqI) (auto simp: listen_data_def bit_simps)

text \<open>A worker whose pool is still empty and that watches nothing yet.\<close>

definition worker_fresh :: "'w vcl_io \<Rightarrow> worker \<times> 'w \<Rightarrow> bool" where
  "worker_fresh V st \<longleftrightarrow>
     conn_pool (fst st) = [] \<and> conn_pool_size (fst st) = 0 \<and> nfds (fst st) = 0 \<and> watched V (snd st) = []"

lemma expand_fresh:
  assumes L: "vcl_laws V" and f: "worker_fresh V (wrk, w)" and e: "conn_pool_expand V n (wrk, w) = (wrk', w')"
  shows "watched V w' = [] \<and> length (conn_pool wrk') = conn_pool_size wrk' \<and> length (conn_pool wrk') < 2 ^ 32 \<and>
    nfds wrk' = 0"
proof -
  obtain b w1 where b: "realloc_ok V n w = (b, w1)" by fastforce
  obtain cs w2 where cs: "fresh_conns n V w1 = (cs, w2)" by fastforce
  show ?thesis
    using e b cs f vcl_lawsD(1) [OF L b] fresh_conns_watched [OF L cs] fresh_conns_free [OF cs]
    by (cases b) (auto simp: conn_pool_expand_def worker_fresh_def)
qed

lemma init_ok:
  assumes L: "vcl_laws V" and S: "setup_laws V" and f: "worker_fresh V (wrk, w)"
    and i: "vts_worker_init V junk vsm (wrk, w) = Inr (vsm', wrk', w')"
  shows "worker_ok V (wrk', w') \<and> watched V w' = [(listen_fd wrk', listen_data junk)] \<and> nfds wrk' = 0 \<and>
    vsm' = vsm\<lparr>active_workers := active_workers vsm + 1\<rparr>"
proof -
  obtain wrk1 w1 where e: "conn_pool_expand V (max_test_sess V + 1) (wrk, w) = (wrk1, w1)" by fastforce
  obtain r w2 where r: "(if wrk_index wrk1 \<noteq> 0 then vppcom_worker_register V w1 else (0, w1)) = (r, w2)" by fastforce
  obtain l w3 where l: "vppcom_session_create V (proto (vcfg vsm)) w2 = (l, w3)" by fastforce
  let ?wrk = "wrk1\<lparr>listen_fd := l\<rparr>"
  obtain wrk4 w4 where b: "bind_listener V (vcfg vsm) (?wrk, w3) = Inr (wrk4, w4)"
    and a: "add_listener V junk (wrk4, w4) = Inr (wrk', w')" and v: "vsm' = vsm\<lparr>active_workers := active_workers vsm + 1\<rparr>"
    using i e r l by (auto simp: vts_worker_init_def Let_def split: if_splits sum.splits)
  note x = expand_fresh [OF L f e]
  have w3: "watched V w3 = []"
    using r l x setup_lawsD(1,2) [OF S] by (auto split: if_splits)
  from bind_listener_frame [OF S b] w3 have 4: "wrk4 = ?wrk" "watched V w4 = []" by auto
  from add_listener_frame [OF L S a] 4 obtain ep where
    5: "wrk' = ?wrk\<lparr>epfd := ep\<rparr>" "watched V w' = [(l, listen_data junk)]" by auto
  then show ?thesis
    using x v by (simp add: worker_ok_def pool_ok_def entry_ok_def listen_data_u32)
qed

text \<open>C21: a worker's whole run, from its start to its last event. What it counts as connections are
  exactly the descriptors epoll watches besides the listener; each of them belongs to a slot in
  use, and the datum of its events is that slot's index. The loop ends only for a failure or
  because no connection is left, and then the listener is all that is watched.\<close>

theorem worker_counts_connections:
  assumes "vcl_laws V" and "setup_laws V" and "listener_stays V" and "worker_fresh V (wrk, w)"
    and "vts_worker_init V junk vsm (wrk, w) = Inr (vsm1, wrk1, w1)"
    and "vts_loop k V vsm1 (wrk1, s, w1) = Some (fl, wrk', s', w')"
  shows "nfds wrk' = int (length (filter (\<lambda>x. fst x \<noteq> listen_fd wrk') (watched V w'))) \<and>
    (\<forall>x \<in> set (watched V w'). fst x \<noteq> listen_fd wrk' \<longrightarrow>
       (\<exists>i. conn_live (wrk', w') i \<and> snd x = word_of_nat i \<and> fd (conn_elt (wrk', w') i) = fst x)) \<and>
    (fl = Failed \<or> fl = Finished \<and> map fst (watched V w') = [listen_fd wrk'])"
proof -
  have ok: "worker_ok V (wrk', w')" and fl: "fl = Finished \<and> nfds wrk' = 0 \<or> fl = Failed"
    using vts_loop_ok [OF assms(1,3,6)] init_ok [OF assms(1,2,4,5)] by auto
  have d: "distinct (map fst (watched V w'))" and l: "listen_fd wrk' \<in> fst ` set (watched V w')"
    and n: "nfds wrk' = int (length (watched V w')) - 1" using ok by (auto simp: worker_ok_def)
  from l obtain x where x: "x \<in> set (watched V w')" "fst x = listen_fd wrk'" by auto
  have "nfds wrk' = int (length (filter (\<lambda>x. fst x \<noteq> listen_fd wrk') (watched V w')))"
    using filter_one [OF d x(1)] x(2) n by simp
  moreover have "map fst (watched V w') = [listen_fd wrk']" if "nfds wrk' = 0"
    using n that x by (cases "watched V w'") auto
  moreover have "\<exists>i. conn_live (wrk', w') i \<and> snd x = word_of_nat i \<and> fd (conn_elt (wrk', w') i) = fst x"
    if "x \<in> set (watched V w')" "fst x \<noteq> listen_fd wrk'" for x
  proof -
    have "entry_ok wrk' x" using that ok by (simp add: worker_ok_def)
    with that show ?thesis by (auto simp: entry_ok_def conn_live_def conn_elt_def)
  qed
  ultimately show ?thesis using fl by blast
qed

section \<open>A test's data\<close>

text \<open>C27: in the middle of a test nothing that arrives is taken for a configuration: once 128 bytes
  were received and until the announced total is exceeded, a turn leaves the connection's
  configuration, all marks and the count of connections alone, whatever the bytes are.\<close>

theorem midstream_is_data:
  assumes L: "vcl_laws V" and i: "i < length (conn_pool wrk)"
    and rd: "vts_conn_read V m (conn_pool wrk ! i, w) = Some (rx, c, w1)"
    and t: "test (cfg c) = VCL_TEST_TYPE_UNI \<or> test (cfg c) = VCL_TEST_TYPE_BI"
    and n: "128 \<le> rx_bytes (stats c)" "rx_bytes (stats c) \<le> total_bytes (cfg c)"
    and r: "read_turn V m i (wrk, w) = Some (fl, wrk', w')"
  shows "cfg (conn_pool wrk' ! i) = cfg (conn_pool wrk ! i) \<and> marks wrk' = marks wrk \<and> nfds wrk' = nfds wrk \<and>
    fl \<noteq> Finished"
proof -
  note f = conn_read_frame [OF L rd]
  have no: "config_message V m c = Some (None, c)"
    using t n by (auto simp: config_message_def vts_conn_expect_config_def not_less)
  have upd: "cfg (conn_pool (upd_conn wrk i (\<lambda>_. c')) ! i) = cfg (conn_pool wrk ! i) \<and>
      same_frame wrk (upd_conn wrk i (\<lambda>_. c'))" if "conn_frame (conn_pool wrk ! i) c'" for c'
    using that i same_frame_conn [OF that] by (simp add: conn_frame_def)
  show ?thesis
  proof (cases "rx \<le> 0")
    case True
    then have "wrk' = upd_conn wrk i (\<lambda>_. c)" "fl \<noteq> Finished"
      using r rd by (auto simp: read_turn_def split: if_splits)
    then show ?thesis using upd [of c] f by (simp add: same_frame_def)
  next
    case False
    then obtain c2 w2 where h: "handle_data V m rx (c, w1) = Some (fl, c2, w2)" "wrk' = upd_conn wrk i (\<lambda>_. c2)"
      using r rd no by (auto simp: read_turn_def)
    note f2 = handle_data_frame [OF L h(1)]
    then show ?thesis using upd [of c2] f conn_frame_trans h(2) by (auto simp: same_frame_def)
  qed
qed

text \<open>A write that returns the whole length has sent the bytes; reading and the clock send nothing.\<close>

definition write_laws :: "'w vcl_io \<Rightarrow> bool" where
  "write_laws V \<longleftrightarrow>
     (\<forall>f bs s v w s' w'. vcl_test_write V f bs s v w = (int (length bs), s', w') \<longrightarrow>
        written V f w' = written V f w @ bs) \<and>
     (\<forall>f m s w n bs s' w'. vcl_test_read V f m s w = (n, bs, s', w') \<longrightarrow> written V f w' = written V f w) \<and>
     (\<forall>f w t w'. clock_realtime V w = (t, w') \<longrightarrow> written V f w' = written V f w)"

text \<open>A turn of a bidirectional test sends back exactly the bytes it received, when the write
  is complete.\<close>

theorem turn_reflects:
  assumes L: "write_laws V" and i: "i < length (conn_pool wrk)"
    and rd: "vcl_test_read V (fd (conn_pool wrk ! i)) (buf_size (conn_pool wrk ! i)) (stats (conn_pool wrk ! i)) w =
      (int (length bs), bs, s1, w1)"
    and bs: "bs \<noteq> []" "length bs \<le> length (buf (conn_pool wrk ! i))"
    and t: "test (cfg (conn_pool wrk ! i)) = VCL_TEST_TYPE_BI"
    and n: "128 \<le> rx_bytes s1" "rx_bytes s1 \<le> total_bytes (cfg (conn_pool wrk ! i))"
    and wr: "fst (vcl_test_write V (fd (conn_pool wrk ! i)) bs (Some s1) (verbose (cfg (conn_pool wrk ! i))) w1) =
      int (length bs)"
  shows "\<exists>fl wrk' w'. read_turn V False i (wrk, w) = Some (fl, wrk', w') \<and>
    written V (fd (conn_pool wrk ! i)) w' = written V (fd (conn_pool wrk ! i)) w @ bs"
proof -
  let ?c = "conn_pool wrk ! i"
  let ?c1 = "?c\<lparr>buf := bs @ drop (length bs) (buf ?c), stats := s1\<rparr>"
  obtain s2 w2 where 2: "vcl_test_write V (fd ?c) bs (Some s1) (verbose (cfg ?c)) w1 = (int (length bs), s2, w2)"
    using wr by (metis prod.collapse)
  let ?c2 = "case s2 of None \<Rightarrow> ?c1 | Some s \<Rightarrow> ?c1\<lparr>stats := s\<rparr>"
  obtain c3 w3 where 3: "note_stop V (?c2, w2) = (c3, w3)" by fastforce
  have rd1: "vts_conn_read V False (?c, w) = Some (int (length bs), ?c1, w1)"
    using rd bs by (simp add: vts_conn_read_def fill_def)
  have no: "config_message V False ?c1 = Some (None, ?c1)"
    using t n by (auto simp: config_message_def vts_conn_expect_config_def)
  have "vts_server_rx V False (int (length bs)) (?c1, w1) = Some (c3, w3)"
    using t 2 3 by (simp add: vts_server_rx_def reflect_data_def conn_write_def)
  then have "handle_data V False (int (length bs)) (?c1, w1)
      = Some (if vppcom_get_nread V (fd c3) w3 > 0 then Read_again else Next, c3, w3)"
    using t by (simp add: handle_data_def)
  then have "\<exists>fl. read_turn V False i (wrk, w) = Some (fl, upd_conn wrk i (\<lambda>_. c3), w3)"
    using rd1 no bs(1) by (simp add: read_turn_def)
  moreover have "written V (fd ?c) w2 = written V (fd ?c) w @ bs"
    using L 2 rd unfolding write_laws_def by metis
  moreover have "written V (fd ?c) w3 = written V (fd ?c) w2"
    using L 3 unfolding write_laws_def note_stop_def by (auto split: if_splits prod.splits)
  ultimately show ?thesis by metis
qed

section \<open>Hang-ups\<close>

text \<open>A hung-up connection's descriptor is closed and the connection no longer counted, but its
  slot stays in use: no later client gets it.\<close>

theorem hangup_keeps_slot:
  assumes "hangs_up e" and "conn_live (wrk, w) (unat (ev_u32 e))" and "proto (vcfg vsm) \<noteq> VPPCOM_PROTO_UDP"
  shows "\<exists>fl wrk' w'. vts_event k V vsm e (wrk, s, w) = Some (fl, wrk', s, w') \<and>
    w' = vppcom_session_close V (fd (conn_pool wrk ! unat (ev_u32 e))) w \<and> nfds wrk' = nfds wrk - 1 \<and>
    conn_live (wrk', w') (unat (ev_u32 e)) \<and> conn_elts (wrk', w') = conn_elts (wrk, w)"
  using assms
  by (auto simp: vts_event_def conn_event_def hangs_up_def conn_live_def conn_elts_def Let_def)

text \<open>A hang-up of the listener makes the worker look for slot \<open>0xFFFFFFFF\<close> of its pool.\<close>

theorem listener_hangup_crashes:
  assumes "hangs_up e" and "ev_u32 e = - 1" and "proto (vcfg vsm) \<noteq> VPPCOM_PROTO_UDP"
    and "length (conn_pool wrk) < 2 ^ 32"
  shows "vts_event k V vsm e (wrk, s, w) = None"
proof -
  have "unat (- 1 :: u32) = 2 ^ 32 - 1" by (simp add: unsigned_minus_1_eq_mask mask_eq_exp_minus_1)
  then show ?thesis
    using assms by (simp add: vts_event_def conn_event_def hangs_up_def Let_def)
qed

section \<open>Datagram statistics\<close>

definition dgram_tick ::
    "(dgram_status \<Rightarrow> u64) \<Rightarrow> u64 \<Rightarrow> (real \<Rightarrow> real) \<Rightarrow> real \<Rightarrow> int \<times> u64 \<times> u64 \<Rightarrow> dgram_status \<Rightarrow>
      u64 option \<times> dgram_status" where
  "dgram_tick sel hdr f64 freq x s =
     (case dgram_count hdr f64 freq x s of (r, s) \<Rightarrow> (map_option (\<lambda>_. sel s) r, s))"

interpretation dgram_bits: rate_meter "dgram_tick speed hdr f64 freq" "\<lambda>s. total s * 8"
  "\<lambda>(rx, _, _). (of_int rx - hdr) * 8" "\<lambda>_. True" for hdr f64 freq
  by unfold_locales
    (auto simp: dgram_tick_def dgram_count_def Let_def algebra_simps split: prod.splits if_splits)

interpretation dgram_packets: rate_meter "dgram_tick pps hdr f64 freq" cur_pps "\<lambda>_. 1" "\<lambda>_. True"
  for hdr f64 freq
  by unfold_locales (auto simp: dgram_tick_def dgram_count_def Let_def split: prod.splits if_splits)

text \<open>C30: the datagram statistics lose nothing: over any run of receives, whatever the clock reads,
  the published bits and the open window add up to eight times what was received less one
  header for each receive, and the published packets to the number of receives.\<close>

theorem dgram_meter_conserves:
  assumes "meter_run (dgram_tick speed hdr f64 freq) xs dgram_status_zero = (ws, s)"
    and "meter_run (dgram_tick pps hdr f64 freq) xs dgram_status_zero = (ps, s')"
  shows "sum_list ws + total s * 8 = sum_list (map (\<lambda>(rx, _, _). (of_int rx - hdr) * 8) xs) \<and>
    sum_list ps + cur_pps s' = of_nat (length xs)"
proof -
  have "sum_list (map (\<lambda>_. 1 :: u64) xs) = of_nat (length xs)" by (induction xs) simp_all
  then show ?thesis
    using dgram_bits.conserved [OF _ assms(1)] dgram_packets.conserved [OF _ assms(2)]
    by (simp add: dgram_status_zero_def)
qed

text \<open>A receive that fails, or delivers less than a header, makes the open window jump to almost
  \<open>2 ^ 64\<close> bytes: the header is subtracted in unsigned arithmetic without a look at the result.\<close>

theorem failed_receive_wraps:
  assumes "rx < uint hdr" and "- (2 ^ 31) \<le> rx" and "uint hdr < 2 ^ 32"
    and "\<not> freq \<le> f64 (f64 (real (unat now1)) - last_time s)" and "total s = 0"
  shows "uint (total (snd (dgram_count hdr f64 freq (rx, now1, now2) s))) = 2 ^ 64 + rx - uint hdr"
proof -
  have "uint ((of_int rx - hdr) :: u64) = (rx - uint hdr) mod 2 ^ 64"
    by (simp add: uint_word_ariths(2) mod_diff_left_eq take_bit_eq_mod unsigned_of_int)
  also have "\<dots> = (2 ^ 64 + rx - uint hdr) mod 2 ^ 64"
    by (metis add.commute add_diff_eq diff_add_eq mod_add_self2)
  also have "\<dots> = 2 ^ 64 + rx - uint hdr"
    using assms(1-3) by (intro mod_pos_pos_trivial) auto
  finally show ?thesis using assms(4,5) by (simp add: dgram_count_def Let_def)
qed

end
