(* ===== verification/VtsDemo.thy ===== *)
theory VtsDemo
  imports VtsLoop
begin

text \<open>
  A small world for the VCL test server: a library that satisfies the laws the theorems assume,
  with what is watched, written and still to be received kept in lists, and the events of each
  wait given in advance. The theorems about the server are applied in it.
\<close>

section \<open>The world\<close>

record demo_world =
  dw_watch :: "(int \<times> u64) list"
  dw_log :: "(int \<times> u8 list) list"
  dw_in :: "(int \<times> u8 list) list"
  dw_events :: "epoll_event list list"

definition demo_cfg :: vcl_cfg where
  "demo_cfg = \<lparr>magic = 0, test = VCL_TEST_TYPE_NONE, ctrl_handle = - 1, total_bytes = 1000,
     rxbuf_size = 8, txbuf_size = 8, num_writes = 0, verbose = 0, cfg_rest = []\<rparr>"

fun vdemo_take :: "int \<Rightarrow> (int \<times> u8 list) list \<Rightarrow> (u8 list \<times> (int \<times> u8 list) list) option" where
  "vdemo_take f [] = None"
| "vdemo_take f ((g, bs) # xs) =
     (if g = f then Some (bs, xs)
      else (case vdemo_take f xs of None \<Rightarrow> None | Some (cs, ys) \<Rightarrow> Some (cs, (g, bs) # ys)))"

definition demo_receive :: "int \<Rightarrow> nat \<Rightarrow> demo_world \<Rightarrow> int \<times> u8 list \<times> demo_world" where
  "demo_receive f m w =
     (case vdemo_take f (dw_in w) of
        None \<Rightarrow> (0, [], w)
      | Some (bs, xs) \<Rightarrow> (int (length (take m bs)), take m bs, w\<lparr>dw_in := xs\<rparr>))"

definition add_rx :: "int \<Rightarrow> vcl_stats \<Rightarrow> vcl_stats" where
  "add_rx n s = s\<lparr>rx_bytes := rx_bytes s + of_int n\<rparr>"

fun demo_new_fd :: "(int \<times> u64) list \<Rightarrow> int" where
  "demo_new_fd [] = 1"
| "demo_new_fd (x # xs) = max (fst x + 1) (demo_new_fd xs)"

definition demo_events_ok :: "(int \<times> u64) list \<Rightarrow> epoll_event list \<Rightarrow> bool" where
  "demo_events_ok ws es \<longleftrightarrow>
     distinct (map ev_data es) \<and> list_all (\<lambda>e. ev_data e \<in> set (map snd ws)) es \<and>
     list_all (\<lambda>e. ev_u32 e = - 1 \<longrightarrow> \<not> hangs_up e) es"

definition demo_wait :: "demo_world \<Rightarrow> int \<times> epoll_event list \<times> demo_world" where
  "demo_wait w =
     (case dw_events w of
        [] \<Rightarrow> (- 1, [], w)
      | es # rest \<Rightarrow>
          if demo_events_ok (dw_watch w) es then (int (length es), es, w\<lparr>dw_events := rest\<rparr>)
          else (- 1, [], w))"

fun demo_type :: "u8 \<Rightarrow> test_type" where
  "demo_type b =
     (if b = 0 then VCL_TEST_TYPE_NONE else if b = 1 then VCL_TEST_TYPE_ECHO
      else if b = 2 then VCL_TEST_TYPE_UNI else if b = 3 then VCL_TEST_TYPE_BI
      else if b = 4 then VCL_TEST_TYPE_EXIT else Unknown_type (ucast b))"

definition demo_vcl :: "demo_world vcl_io" where
  "demo_vcl = \<lparr>
     realloc_ok = (\<lambda>n w. (n < 2 ^ 32, w)),
     vcl_test_cfg_init = demo_cfg,
     vcl_test_buf_alloc = (\<lambda>g b n w. (g, replicate 8 0, 8, w)),
     vcl_test_write = (\<lambda>f bs s v w. (int (length bs), s, w\<lparr>dw_log := dw_log w @ [(f, bs)]\<rparr>)),
     vcl_test_read = (\<lambda>f m s w. case demo_receive f (unat m) w of (n, bs, w) \<Rightarrow> (n, bs, add_rx n s, w)),
     vcl_test_read_ds = (\<lambda>f s w. case demo_receive f 100 w of (n, bs, w) \<Rightarrow> (n, (bs, []), add_rx n s, w)),
     vcl_test_stats_accumulate = (\<lambda>a b. a\<lparr>rx_bytes := rx_bytes a + rx_bytes b\<rparr>),
     vcl_test_stats_dump = (\<lambda>t s a b v w. w),
     vcl_comp_tspec = (\<lambda>a b. if fst a < fst b \<or> fst a = fst b \<and> snd a < snd b then - 1 else 0),
     vcl_delay_disconnect = 1,
     clock_realtime = (\<lambda>w. ((7, 0), w)),
     cfg_of_bytes = (\<lambda>b. demo_cfg\<lparr>magic := ucast (b ! 0), test := demo_type (b ! 1),
       ctrl_handle := (if b ! 2 = 255 then - 1 else ucast (b ! 2)), total_bytes := ucast (b ! 3)\<rparr>),
     cfg_bytes = (\<lambda>g. [ucast (magic g), 0, ucast (ctrl_handle g), ucast (total_bytes g)]),
     cfg_size = 4,
     ctrl_magic = 126,
     vppcom_data_segment_copy = (\<lambda>d n. take n (fst d @ snd d)),
     vppcom_session_accept = (\<lambda>l a w. (demo_new_fd (dw_watch w), a, w)),
     vppcom_session_close = (\<lambda>f w. w\<lparr>dw_watch := filter (\<lambda>x. fst x \<noteq> f) (dw_watch w)\<rparr>),
     vppcom_session_free_segments = (\<lambda>f d w. w),
     vppcom_session_read_segments = (\<lambda>f w. case demo_receive f 100 w of (n, bs, w) \<Rightarrow> (n, (bs, []), w)),
     vppcom_get_nread = (\<lambda>f w. case vdemo_take f (dw_in w) of None \<Rightarrow> 0 | Some (bs, _) \<Rightarrow> int (length bs)),
     vppcom_epoll_create = (\<lambda>w. (3, w)),
     vppcom_epoll_ctl_add = (\<lambda>ep f e w. (0, w\<lparr>dw_watch := dw_watch w @ [(f, ev_data e)]\<rparr>)),
     vppcom_epoll_wait = (\<lambda>ep m w. demo_wait w),
     errno_connreset = (\<lambda>w. False),
     vppcom_worker_register = (\<lambda>w. (0, w)),
     vppcom_session_create = (\<lambda>p w. (1, w)),
     vppcom_session_tls_add_cert = (\<lambda>f w. w),
     vppcom_session_tls_add_key = (\<lambda>f w. w),
     vppcom_session_bind = (\<lambda>f e w. (0, w)),
     vppcom_session_listen = (\<lambda>f n w. (0, w)),
     max_test_sess = 0,
     max_epoll_events = 16,
     sizeof_dgram_hdr = 40,
     clib_cpu_time_now = (\<lambda>w. (0, w)),
     os_cpu_clock_frequency = 1,
     f64_round = (\<lambda>x. x),
     watched = dw_watch,
     written = (\<lambda>f w. concat (map snd (filter (\<lambda>x. fst x = f) (dw_log w))))\<rparr>"

lemma demo_vcl_simps [simp]:
  "realloc_ok demo_vcl n w = (n < 2 ^ 32, w)"
  "vcl_test_cfg_init demo_vcl = demo_cfg"
  "vcl_test_buf_alloc demo_vcl g b sz w = (g, replicate 8 0, 8, w)"
  "vcl_test_write demo_vcl f bs s v w = (int (length bs), s, w\<lparr>dw_log := dw_log w @ [(f, bs)]\<rparr>)"
  "watched demo_vcl = dw_watch" "ctrl_magic demo_vcl = 126" "cfg_size demo_vcl = 4"
  "vppcom_session_close demo_vcl f w = w\<lparr>dw_watch := filter (\<lambda>x. fst x \<noteq> f) (dw_watch w)\<rparr>"
  "vppcom_epoll_wait demo_vcl ep sz' w = demo_wait w"
  "vcl_test_stats_dump demo_vcl tag st x y v w = w"
  "clock_realtime demo_vcl w = ((7, 0), w)"
  "vppcom_session_free_segments demo_vcl f d w = w"
  "vppcom_epoll_create demo_vcl w = (3, w)"
  "vppcom_epoll_ctl_add demo_vcl ep f e w = (0, w\<lparr>dw_watch := dw_watch w @ [(f, ev_data e)]\<rparr>)"
  "vppcom_session_accept demo_vcl l ad w = (demo_new_fd (dw_watch w), ad, w)"
  "vppcom_worker_register demo_vcl w = (0, w)" "vppcom_session_create demo_vcl p w = (1, w)"
  "vppcom_session_tls_add_cert demo_vcl f w = w" "vppcom_session_tls_add_key demo_vcl f w = w"
  "vppcom_session_bind demo_vcl f ed w = (0, w)" "vppcom_session_listen demo_vcl f lq w = (0, w)"
  "vcl_test_read demo_vcl f sz'' t0 w = (case demo_receive f (unat sz'') w of (n', bs', w) \<Rightarrow> (n', bs', add_rx n' t0, w))"
  "cfg_of_bytes demo_vcl cb = demo_cfg\<lparr>magic := ucast (cb ! 0), test := demo_type (cb ! 1),
       ctrl_handle := (if cb ! 2 = 255 then - 1 else ucast (cb ! 2)), total_bytes := ucast (cb ! 3)\<rparr>"
  "max_test_sess demo_vcl = 0" "errno_connreset demo_vcl w = False"
  "clib_cpu_time_now demo_vcl w = (0, w)" "vcl_delay_disconnect demo_vcl = 1"
  "rx_bytes (vcl_test_stats_accumulate demo_vcl a a') = rx_bytes a + rx_bytes a'"
  "stop (vcl_test_stats_accumulate demo_vcl a a') = stop a"
  "vcl_comp_tspec demo_vcl t t' = (if fst t < fst t' \<or> fst t = fst t' \<and> snd t < snd t' then - 1 else 0)"
  by (simp_all add: demo_vcl_def)

lemma demo_new_fd_fresh: "x \<in> set ws \<Longrightarrow> fst x < demo_new_fd ws"
  by (induction ws) auto

lemma demo_receive_watch: "demo_receive f m w = (n, bs, w') \<Longrightarrow> dw_watch w' = dw_watch w"
  by (auto simp: demo_receive_def split: option.splits prod.splits)

lemma demo_vcl_laws: "vcl_laws demo_vcl"
proof -
  have fd: "demo_new_fd ws \<notin> fst ` set ws" for ws using demo_new_fd_fresh by fastforce
  have wait: "dw_watch w' = dw_watch w \<and> (0 \<le> n \<longrightarrow> length es = nat n) \<and> distinct (map ev_data es) \<and>
      ev_data ` set es \<subseteq> snd ` set (dw_watch w)" if "demo_wait w = (n, es, w')" for w n es w'
    using that by (auto simp: demo_wait_def demo_events_ok_def list_all_iff split: list.splits if_splits)
  show ?thesis
    unfolding vcl_laws_def
    by (intro conjI allI impI; (simp add: fd; fail)?)
      (auto simp: demo_vcl_def fd demo_receive_watch dest: wait split: prod.splits)
qed

lemma demo_setup_laws: "setup_laws demo_vcl"
  by (simp add: setup_laws_def)

lemma demo_listener_stays: "listener_stays demo_vcl"
  by (auto simp: listener_stays_def demo_wait_def demo_events_ok_def list_all_iff split: list.splits)

section \<open>Connections and workers\<close>

definition demo_conn :: "int \<Rightarrow> vcl_cfg \<Rightarrow> u64 \<Rightarrow> conn" where
  "demo_conn f g n = \<lparr>is_alloc = 1, fd = f, buf = [72, 105, 0, 9], buf_size = 4, cfg = g,
     stats = zero_stats\<lparr>rx_bytes := n, stop := (100, 0)\<rparr>, endpt_ip = None, ip = replicate 16 0, ds = ([], [])\<rparr>"

definition demo_worker :: "conn list \<Rightarrow> worker" where
  "demo_worker cs = \<lparr>wrk_index = 0, listen_fd = 1, epfd = 3, wait_events = [], conn_pool_size = length cs,
     conn_pool = cs, nfds = int (length cs)\<rparr>"

definition demo_world0 :: demo_world where
  "demo_world0 = \<lparr>dw_watch = [], dw_log = [], dw_in = [], dw_events = []\<rparr>"

lemmas demo_defs = demo_conn_def demo_worker_def demo_world0_def demo_cfg_def zero_stats_def

definition demo_server :: server_main where
  "demo_server = \<lparr>vcfg = \<lparr>port = 22000, address_ip6 = 0, proto = VPPCOM_PROTO_TCP, workers_cfg = 1,
     cfg_endpt = \<lparr>is_ip4 = 1, ep_ip = [0, 0, 0, 0], ep_port = bswap16 22000\<rparr>\<rparr>,
     servaddr = \<lparr>sa_family = AF_INET, sa_addr = [0, 0, 0, 0], sa_port = bswap16 22000\<rparr>,
     worker_fails = 0, active_workers = 0, use_ds = 0\<rparr>"

section \<open>The theorems at work\<close>


definition demo_pair :: worker where
  "demo_pair = demo_worker [demo_conn 5 (demo_cfg\<lparr>ctrl_handle := 5\<rparr>) 10,
     (demo_conn 6 (demo_cfg\<lparr>ctrl_handle := 5\<rparr>) 3)\<lparr>is_alloc := 0, stats := zero_stats\<lparr>rx_bytes := 3\<rparr>\<rparr>]"

lemma demo_pair_simps [simp]:
  "conn_pool_size demo_pair = Suc (Suc 0)" "length (conn_pool demo_pair) = Suc (Suc 0)"
  "in_test demo_pair 0 0" "in_test demo_pair 0 (Suc 0)" "rx_of demo_pair 0 = 10" "rx_of demo_pair (Suc 0) = 3"
  "stop (stats (conn_pool demo_pair ! 0)) = (100, 0)" "stop (stats (conn_pool demo_pair ! Suc 0)) = (0, 0)"
  by (simp_all add: demo_pair_def demo_defs in_test_def rx_of_def)

theorem stop_totals_witness:
  "rx_of (fst (fold (stop_slot demo_vcl False 0) [0..<2] (demo_pair, demo_world0))) 0 = 23"
proof -
  have "pool_ok (demo_pair, demo_world0)" by (simp add: pool_ok_def)
  from stop_totals [OF _ this, of demo_vcl 0 False] show ?thesis
    by (simp add: rx_sum_def numeral_2_eq_2)
qed

theorem stop_delay_repeated_witness:
  "fst (stop (stats (conn_pool (fst (fold (stop_slot demo_vcl False 0) [0..<2] (demo_pair, demo_world0))) ! 0))) = 98"
proof -
  have "pool_ok (demo_pair, demo_world0)" by (simp add: pool_ok_def)
  from stop_delay_repeated [OF _ _ this, of demo_vcl 0 2 False] show ?thesis
    by (simp add: less_Suc_eq numeral_2_eq_2)
qed



theorem new_client_slot_witness:
  "(let wrk = demo_worker [demo_conn 5 demo_cfg 9, (demo_conn 0 demo_cfg 0)\<lparr>is_alloc := 0\<rparr>];
        (wrk', w') = vts_new_client demo_vcl (wrk, demo_world0)
    in conn_live (wrk', w') 1 \<and> nfds wrk' = 3 \<and> conn_elts (wrk', w') = 2)"
proof -
  let ?wrk = "demo_worker [demo_conn 5 demo_cfg 9, (demo_conn 0 demo_cfg 0)\<lparr>is_alloc := 0\<rparr>]"
  obtain wrk' w' where n: "vts_new_client demo_vcl (?wrk, demo_world0) = (wrk', w')" by fastforce
  have get: "conn_get demo_vcl (?wrk, demo_world0) = Some (1, take_conn 1 ?wrk, demo_world0)"
    by (simp add: conn_get_def conn_pool_alloc_def demo_worker_def demo_conn_def numeral_2_eq_2)
  have "pool_ok (?wrk, demo_world0)" by (simp add: pool_ok_def demo_worker_def)
  from new_client_slot [OF this get _ _ n] n show ?thesis
    by (simp add: demo_worker_def conn_elts_def demo_conn_def demo_world0_def)
qed

theorem midstream_is_data_witness:
  "(let c = demo_conn 5 (demo_cfg\<lparr>test := VCL_TEST_TYPE_UNI\<rparr>) 200;
        w = demo_world0\<lparr>dw_in := [(5, [126, 4, 0, 0])]\<rparr>
    in case read_turn demo_vcl False 0 (demo_worker [c], w) of
         None \<Rightarrow> False
       | Some (fl, wrk', w') \<Rightarrow> marks wrk' = [(1, 5)] \<and> cfg (conn_pool wrk' ! 0) = cfg c \<and> fl \<noteq> Finished)"
proof -
  let ?c = "demo_conn 5 (demo_cfg\<lparr>test := VCL_TEST_TYPE_UNI\<rparr>) 200"
  let ?w = "demo_world0\<lparr>dw_in := [(5, [126, 4, 0, 0])]\<rparr>"
  let ?c' = "?c\<lparr>buf := [126, 4, 0, 0], stats := (stats ?c)\<lparr>rx_bytes := 204\<rparr>\<rparr>"
  have rd: "vts_conn_read demo_vcl False (conn_pool (demo_worker [?c]) ! 0, ?w) = Some (4, ?c', demo_world0)"
    by (simp add: vts_conn_read_def demo_defs demo_vcl_def demo_receive_def fill_def add_rx_def)
  have "read_turn demo_vcl False 0 (demo_worker [?c], ?w) \<noteq> None"
    using rd by (simp add: read_turn_def config_message_def vts_conn_expect_config_def handle_data_def
        vts_server_rx_def reflect_data_def demo_defs)
  then obtain fl wrk' w' where r: "read_turn demo_vcl False 0 (demo_worker [?c], ?w) = Some (fl, wrk', w')"
    by (metis not_Some_eq prod_cases3)
  have "marks wrk' = [(1, 5)] \<and> cfg (conn_pool wrk' ! 0) = cfg ?c \<and> fl \<noteq> Finished"
    using midstream_is_data [OF demo_vcl_laws _ rd _ _ _ r] by (simp add: demo_defs marks_def)
  with r show ?thesis by simp
qed

theorem turn_reflects_witness:
  "(let c = demo_conn 5 (demo_cfg\<lparr>test := VCL_TEST_TYPE_BI\<rparr>) 200;
        w = demo_world0\<lparr>dw_in := [(5, [1, 2, 3])]\<rparr>
    in case read_turn demo_vcl False 0 (demo_worker [c], w) of
         None \<Rightarrow> False
       | Some (fl, wrk', w') \<Rightarrow> written demo_vcl 5 w' = [1, 2, 3])"
proof -
  let ?c = "demo_conn 5 (demo_cfg\<lparr>test := VCL_TEST_TYPE_BI\<rparr>) 200"
  let ?w = "demo_world0\<lparr>dw_in := [(5, [1, 2, 3])]\<rparr>"
  have laws: "write_laws demo_vcl"
    by (auto simp: write_laws_def demo_vcl_def demo_receive_def split: option.splits prod.splits)
  have "\<exists>fl wrk' w'. read_turn demo_vcl False 0 (demo_worker [?c], ?w) = Some (fl, wrk', w') \<and>
      written demo_vcl 5 w' = written demo_vcl 5 ?w @ [1, 2, 3]"
    using turn_reflects [OF laws, of 0 "demo_worker [?c]" ?w "[1, 2, 3]" "(stats ?c)\<lparr>rx_bytes := 203\<rparr>" demo_world0]
    by (simp add: demo_defs demo_vcl_def demo_receive_def add_rx_def)
  moreover have "written demo_vcl 5 ?w = []" by (simp add: demo_vcl_def demo_world0_def)
  ultimately show ?thesis by auto
qed

theorem hangup_keeps_slot_witness:
  "(case vts_event 1 demo_vcl demo_server \<lparr>events = EPOLLHUP, ev_data = 0\<rparr>
      (demo_worker [demo_conn 5 demo_cfg 9], dgram_status_zero, demo_world0) of
      None \<Rightarrow> False
    | Some (fl, wrk', _, w') \<Rightarrow> conn_live (wrk', w') 0 \<and> nfds wrk' = 0)"
proof -
  have "hangs_up \<lparr>events = EPOLLHUP, ev_data = 0\<rparr>" "conn_live (demo_worker [demo_conn 5 demo_cfg 9], demo_world0) 0"
    by (simp_all add: hangs_up_def conn_live_def demo_defs)
  from hangup_keeps_slot [OF this(1), of "demo_worker [demo_conn 5 demo_cfg 9]" demo_world0 demo_server 1 demo_vcl
      dgram_status_zero] this(2)
  show ?thesis by (auto simp: ev_u32_def demo_server_def demo_defs)
qed

theorem listener_hangup_crashes_witness:
  "vts_event 1 demo_vcl demo_server \<lparr>events = EPOLLHUP, ev_data = 0xFFFFFFFF\<rparr>
     (demo_worker [demo_conn 5 demo_cfg 9], dgram_status_zero, demo_world0) = None"
  by (rule listener_hangup_crashes) (simp_all add: hangs_up_def ev_u32_def demo_server_def demo_worker_def)

theorem dgram_meter_conserves_witness:
  "(let (ws, s) = meter_run (dgram_tick speed 40 (\<lambda>x. x) 10) [(140, 5, 5), (90, 12, 13), (60, 14, 15)] dgram_status_zero
    in ws = [1200] \<and> total s * 8 = 160)"
proof -
  let ?xs = "[(140, 5, 5), (90, 12, 13), (60, 14, 15)] :: (int \<times> u64 \<times> u64) list"
  obtain ws s where 1: "meter_run (dgram_tick speed 40 (\<lambda>x. x) 10) ?xs dgram_status_zero = (ws, s)" by fastforce
  obtain ps s' where 2: "meter_run (dgram_tick pps 40 (\<lambda>x. x) 10) ?xs dgram_status_zero = (ps, s')" by fastforce
  have "ws = [1200]" using 1 by (auto simp: dgram_tick_def dgram_count_def dgram_status_zero_def)
  moreover have "sum_list ws + total s * 8 = 1360" using dgram_meter_conserves [OF 1 2] by simp
  ultimately have "1200 + total s * 8 = 1200 + 160" by simp
  then have "total s * 8 = 160" by (rule add_left_imp_eq)
  with \<open>ws = [1200]\<close> 1 show ?thesis by simp
qed

theorem failed_receive_wraps_witness:
  "uint (total (snd (dgram_count 40 (\<lambda>x. x) 10 (- 1, 5, 6) dgram_status_zero))) = 2 ^ 64 - 41"
  using failed_receive_wraps [of "- 1" 40 10 "\<lambda>x. x" 5 dgram_status_zero 6]
  by (simp add: dgram_status_zero_def)


definition demo_session :: demo_world where
  "demo_session = demo_world0\<lparr>dw_in := [(2, [126, 4, 0, 0])],
     dw_events := [[\<lparr>events = EPOLLIN, ev_data = 0xFFFFFFFF\<rparr>], [\<lparr>events = EPOLLIN, ev_data = 0\<rparr>]]\<rparr>"

lemma demo_init:
  "vts_worker_init demo_vcl 0 demo_server (demo_worker [], demo_session) =
     Inr (demo_server\<lparr>active_workers := 1\<rparr>,
       (demo_worker [])\<lparr>conn_pool_size := 1, conn_pool := [fst (fresh_conn demo_vcl demo_session)]\<rparr>,
       demo_session\<lparr>dw_watch := [(1, 0xFFFFFFFF)]\<rparr>)"
  by (simp add: vts_worker_init_def conn_pool_expand_def fresh_conn_def demo_worker_def demo_server_def
      bind_listener_def add_listener_def listen_data_def mask_eq_exp_minus_1 demo_session_def demo_world0_def)

lemma demo_loop_any:
  assumes "proto (vcfg vsm) = VPPCOM_PROTO_TCP" "use_ds vsm = 0"
  shows "map_option fst (vts_loop 3 demo_vcl vsm
     ((demo_worker [])\<lparr>conn_pool_size := 1, conn_pool := [fst (fresh_conn demo_vcl demo_session)]\<rparr>,
      dgram_status_zero, demo_session\<lparr>dw_watch := [(1, 0xFFFFFFFF)]\<rparr>)) = Some Finished"
  using assms
  by (simp add: numeral_3_eq_3 demo_session_def demo_world0_def demo_worker_def demo_wait_def demo_events_ok_def
      hangs_up_def ev_u32_def vts_event_def conn_event_def demo_server_def vts_new_client_def conn_pool_alloc_def
      fresh_conn_def take_conn_def upd_conn_def read_turn_def vts_conn_read_def demo_receive_def fill_def
      config_message_def vts_conn_expect_config_def vts_conn_read_config_def add_rx_def demo_cfg_def zero_stats_def
      vts_handle_cfg_def upd_stats_def conn_pool_free_def Let_def)

lemma demo_loop:
  "map_option fst (vts_loop 3 demo_vcl (demo_server\<lparr>active_workers := 1\<rparr>)
     ((demo_worker [])\<lparr>conn_pool_size := 1, conn_pool := [fst (fresh_conn demo_vcl demo_session)]\<rparr>,
      dgram_status_zero, demo_session\<lparr>dw_watch := [(1, 0xFFFFFFFF)]\<rparr>)) = Some Finished"
  by (rule demo_loop_any) (simp_all add: demo_server_def)

theorem worker_counts_connections_witness:
  "(case vts_worker_init demo_vcl 0 demo_server (demo_worker [], demo_session) of
      Inl _ \<Rightarrow> False
    | Inr (vsm, wrk, w) \<Rightarrow>
        (case vts_loop 3 demo_vcl vsm (wrk, dgram_status_zero, w) of
           None \<Rightarrow> False
         | Some (fl, wrk', _, w') \<Rightarrow> fl = Finished \<and> map fst (dw_watch w') = [listen_fd wrk'] \<and> nfds wrk' = 0))"
proof -
  from demo_init demo_loop obtain vsm wrk w
    where i: "vts_worker_init demo_vcl 0 demo_server (demo_worker [], demo_session) = Inr (vsm, wrk, w)"
    and fl: "map_option fst (vts_loop 3 demo_vcl vsm (wrk, dgram_status_zero, w)) = Some Finished"
    by blast
  then obtain wrk' s' w' where l: "vts_loop 3 demo_vcl vsm (wrk, dgram_status_zero, w) = Some (Finished, wrk', s', w')"
    by auto
  have "worker_fresh demo_vcl (demo_worker [], demo_session)"
    by (simp add: worker_fresh_def demo_worker_def demo_session_def demo_world0_def)
  from worker_counts_connections [OF demo_vcl_laws demo_setup_laws demo_listener_stays this i l]
  have c: "map fst (dw_watch w') = [listen_fd wrk']"
    "nfds wrk' = int (length (filter (\<lambda>x. fst x \<noteq> listen_fd wrk') (dw_watch w')))" by simp_all
  then have "nfds wrk' = 0" by (cases "dw_watch w'") auto
  with c i l show ?thesis by simp
qed

end
