(* ===== verification/VtsRefine.thy ===== *)
theory VtsRefine
  imports VtsDemo
begin

text \<open>
  The VCL test server against two abstract specifications: its worker is a registry of clients, and
  a bidirectional test is an echo. The registry is the set of descriptors served with the slot of
  each; epoll, the pool and the count of connections implement it.
\<close>

section \<open>The registry\<close>

text \<open>A step is labelled with the slot whose event it is, or with none for the listener's. Only the
  listener brings a client, with a descriptor and a slot that no other client has; only a client's
  own event ends it.\<close>

type_synonym clients = "(int \<times> nat) set"

inductive clients_step :: "nat option \<Rightarrow> clients \<Rightarrow> clients \<Rightarrow> bool" where
  stays: "clients_step l C C"
| joins: "f \<notin> fst ` C \<Longrightarrow> i \<notin> snd ` C \<Longrightarrow> clients_step None C (insert (f, i) C)"
| leaves: "(f, i) \<in> C \<Longrightarrow> clients_step (Some i) C (C - {(f, i)})"

inductive clients_run :: "nat option list \<Rightarrow> clients \<Rightarrow> clients \<Rightarrow> bool" where
  run_nil: "clients_run [] C C"
| run_cons: "clients_step l C C1 \<Longrightarrow> clients_run ls C1 C2 \<Longrightarrow> clients_run (l # ls) C C2"

inductive_simps clients_run_Nil [simp]: "clients_run [] C C'"
inductive_simps clients_run_Cons: "clients_run (l # ls) C C'"

lemma clients_run_refl: "\<exists>ls. clients_run ls C C"
  using run_nil by blast

lemma clients_run_append: "clients_run ls C C1 \<Longrightarrow> clients_run ms C1 C2 \<Longrightarrow> clients_run (ls @ ms) C C2"
  by (induction rule: clients_run.induct) (auto intro: run_cons)

section \<open>The abstraction\<close>

definition client_of :: "int \<times> u64 \<Rightarrow> int \<times> nat" where
  "client_of x = (fst x, unat (ucast (snd x) :: u32))"

definition clients_of :: "'w vcl_io \<Rightarrow> worker \<times> 'w \<Rightarrow> clients" where
  "clients_of V st = client_of ` {x \<in> set (watched V (snd st)). fst x \<noteq> listen_fd (fst st)}"

definition label_of :: "epoll_event \<Rightarrow> nat option" where
  "label_of e = (if ev_u32 e = - 1 then None else Some (unat (ev_u32 e)))"

lemma clients_of_same:
  "watched V w' = watched V w \<Longrightarrow> listen_fd wrk' = listen_fd wrk \<Longrightarrow> clients_of V (wrk', w') = clients_of V (wrk, w)"
  by (simp add: clients_of_def)

lemma entry_index:
  assumes "worker_ok V (wrk, w)" "x \<in> set (watched V w)" "fst x \<noteq> listen_fd wrk"
  obtains i where "i < length (conn_pool wrk)" "i < 2 ^ 32 - 1" "is_alloc (conn_pool wrk ! i) \<noteq> 0"
    "fd (conn_pool wrk ! i) = fst x" "x = (fst x, word_of_nat i)" "client_of x = (fst x, i)"
proof -
  have "entry_ok wrk x" using assms(1,2) by (simp add: worker_ok_def)
  with assms(3) obtain i where i: "i < length (conn_pool wrk)" "fst (marks wrk ! i) \<noteq> 0" "snd x = word_of_nat i"
    "snd (marks wrk ! i) = fst x"
    by (auto simp: entry_ok_def simp del: marks_nth)
  then have "i < 2 ^ 32 - 1" using assms(1) by (simp add: worker_ok_def)
  with i show thesis
    using small_index(2) [of i] by (intro that [of i]) (auto simp: client_of_def prod_eq_iff)
qed

lemma listen_in_watched: "worker_ok V (wrk, w) \<Longrightarrow> listen_fd wrk \<in> fst ` set (watched V w)"
  by (simp add: worker_ok_def)

text \<open>The count of connections is the number of clients.\<close>

lemma clients_counted:
  assumes ok: "worker_ok V (wrk, w)"
  shows "int (card (clients_of V (wrk, w))) = nfds wrk"
proof -
  let ?xs = "filter (\<lambda>x. fst x \<noteq> listen_fd wrk) (watched V w)"
  have d: "distinct (map fst (watched V w))" using ok by (simp add: worker_ok_def)
  have "inj_on client_of (set (watched V w))"
    using d by (auto simp: inj_on_def client_of_def distinct_map dest: inj_onD)
  then have "card (clients_of V (wrk, w)) = card (set ?xs)"
    by (auto simp: clients_of_def intro!: card_image elim: inj_on_subset)
  also have "\<dots> = length ?xs" using d by (intro distinct_card) (simp add: distinct_map)
  finally have c: "card (clients_of V (wrk, w)) = length ?xs" .
  obtain x where "x \<in> set (watched V w)" "fst x = listen_fd wrk" using listen_in_watched [OF ok] by auto
  from filter_one [OF d this(1)] this(2) have "Suc (length ?xs) = length (watched V w)" by simp
  with c ok show ?thesis by (simp add: worker_ok_def)
qed

section \<open>One event\<close>

text \<open>Accepting adds at most one entry, of a new descriptor, with a slot no client has.\<close>

lemma new_client_entry:
  assumes L: "vcl_laws V" and ok: "worker_ok V (wrk, w)" and n: "vts_new_client V (wrk, w) = (wrk', w')"
  shows "listen_fd wrk' = listen_fd wrk \<and>
    (watched V w' = watched V w \<or>
     (\<exists>f i. watched V w' = watched V w @ [(f, word_of_nat i)] \<and> f \<notin> fst ` set (watched V w) \<and>
        i < 2 ^ 32 - 1 \<and> i \<notin> snd ` clients_of V (wrk, w)))"
proof -
  obtain r wrk1 w1 where a: "conn_pool_alloc V (wrk, w) = (r, wrk1, w1)" by (metis prod_cases3)
  note k = alloc_kept [OF L ok a]
  show ?thesis
  proof (cases r)
    case None
    then have "wrk' = wrk1" "w' = w1" using n a by (simp_all add: vts_new_client_def)
    moreover have "listen_fd wrk1 = listen_fd wrk"
      using a None expand_shape by (fastforce simp: conn_pool_alloc_def split: option.splits prod.splits)
    ultimately show ?thesis using k(1) by simp
  next
    case (Some i)
    then obtain wrk0 where 0: "worker_ok V (wrk0, w1)" "wrk1 = take_conn i wrk0"
      "find_free (conn_pool wrk0) (conn_pool_size wrk0) = Some i" "listen_fd wrk0 = listen_fd wrk"
      using k(3) by blast
    note ff = find_free_Some [OF 0(3)]
    have small: "i < 2 ^ 32 - 1" using ff(1) 0(1) by (simp add: worker_ok_def)
    have same: "clients_of V (wrk0, w1) = clients_of V (wrk, w)" using clients_of_same [OF k(1) 0(4)] .
    have free: "i \<notin> snd ` clients_of V (wrk0, w1)"
    proof
      assume "i \<in> snd ` clients_of V (wrk0, w1)"
      then obtain x where x: "x \<in> set (watched V w1)" "fst x \<noteq> listen_fd wrk0" "i = snd (client_of x)"
        by (auto simp: clients_of_def)
      obtain j where "is_alloc (conn_pool wrk0 ! j) \<noteq> 0" "client_of x = (fst x, j)"
        by (rule entry_index [OF 0(1) x(1,2)])
      with x(3) ff show False by simp
    qed
    obtain cf b w2 where c: "vppcom_session_accept V (listen_fd wrk1) (ip (conn_pool wrk1 ! i)) w1 = (cf, b, w2)"
      by (metis prod_cases3)
    obtain rv w3 where t: "vppcom_epoll_ctl_add V (epfd wrk1) cf \<lparr>events = EPOLLIN, ev_data = word_of_nat i\<rparr> w2 = (rv, w3)"
      by fastforce
    note acc = vcl_lawsD(11) [OF L c] and add = vcl_lawsD(12) [OF L t]
    have l: "listen_fd wrk' = listen_fd wrk"
      using n a Some c t 0 by (auto simp: vts_new_client_def Let_def take_conn_def split: if_splits)
    have "w' = w2 \<or> w' = w3 \<and> 0 \<le> cf"
      using n a Some c t by (auto simp: vts_new_client_def Let_def split: if_splits)
    then show ?thesis
      using l acc add k(1) small free same by (cases "rv < 0") auto
  qed
qed

text \<open>Closing the descriptor of a watched slot takes that client out.\<close>

lemma clients_of_close:
  assumes ok: "worker_ok V (wrk, w)" and s: "slot_of V (wrk, w) i"
    and w': "watched V w' = filter (\<lambda>x. fst x \<noteq> fd (conn_pool wrk ! i)) (watched V w)"
    and l: "listen_fd wrk' = listen_fd wrk"
  shows "(fd (conn_pool wrk ! i), i) \<in> clients_of V (wrk, w) \<and>
    clients_of V (wrk', w') = clients_of V (wrk, w) - {(fd (conn_pool wrk ! i), i)}"
proof -
  let ?f = "fd (conn_pool wrk ! i)" and ?e = "(fd (conn_pool wrk ! i), word_of_nat i :: u64)"
  have e: "?e \<in> set (watched V w)" "?f \<noteq> listen_fd wrk" "i < 2 ^ 32 - 1"
    using s ok by (auto simp: slot_of_def worker_ok_def)
  then have c: "client_of ?e = (?f, i)" using small_index(2) [of i] by (simp add: client_of_def)
  have d: "distinct (map fst (watched V w))" using ok by (simp add: worker_ok_def)
  have only: "x = ?e" if x: "x \<in> set (watched V w)" "fst x = ?f" for x
  proof -
    have "(?f, snd x) \<in> set (watched V w)" using x by (metis prod.collapse)
    from eq_key_imp_eq_value [OF d this e(1)] x(2) show ?thesis by (simp add: prod_eq_iff)
  qed
  have iff: "fst x = ?f \<longleftrightarrow> client_of x = (?f, i)" if "x \<in> set (watched V w)" for x
    using only [OF that] c by (metis client_of_def fst_conv)
  have "(?f, i) \<in> clients_of V (wrk, w)"
    using e(1,2) c by (auto simp: clients_of_def intro!: image_eqI [of _ client_of ?e])
  moreover have "{x \<in> set (watched V w'). fst x \<noteq> listen_fd wrk'}
      = {x \<in> set (watched V w). client_of x \<noteq> (?f, i) \<and> fst x \<noteq> listen_fd wrk}"
    using iff w' l by auto
  then have "clients_of V (wrk', w') = clients_of V (wrk, w) - {(?f, i)}"
    by (auto simp: clients_of_def)
  ultimately show ?thesis by simp
qed

lemma event_cases:
  assumes L: "vcl_laws V" and ok: "worker_ok V (wrk, w)" and e: "watched_event V w e"
    and r: "vts_event k V vsm e (wrk, s, w) = Some (fl, wrk', s', w')"
  shows "(watched V w' = watched V w \<and> listen_fd wrk' = listen_fd wrk)
    \<or> (ev_u32 e = - 1 \<and> vts_new_client V (wrk, w) = (wrk', w'))
    \<or> (ev_u32 e \<noteq> - 1 \<and> listen_fd wrk' = listen_fd wrk \<and>
       watched V w' = filter (\<lambda>x. fst x \<noteq> fd (conn_pool wrk ! unat (ev_u32 e))) (watched V w))"
proof (cases "proto (vcfg vsm) = VPPCOM_PROTO_UDP \<and> EPOLLIN AND events e \<noteq> 0")
  case True
  then show ?thesis using r serve_dgram_watched [OF L] by (auto simp: vts_event_def)
next
  case False
  let ?i = "unat (ev_u32 e)" and ?m = "use_ds vsm \<noteq> 0"
  have c: "conn_event k V ?m e (wrk, w) = Some (fl, wrk', w')" using r False by (auto simp: vts_event_def)
  show ?thesis
  proof (cases "ev_u32 e = - 1")
    case True
    then have "events e AND (EPOLLHUP OR EPOLLRDHUP) = 0" using e by (simp add: watched_event_def hangs_up_def)
    then show ?thesis using c True by (simp add: conn_event_def Let_def)
  next
    case l: False
    have i: "?i < length (conn_pool (fst (wrk, w)))"
      using watched_event_slot(1) [OF ok e l] by (simp add: slot_of_def)
    consider "wrk' = wrk\<lparr>nfds := nfds wrk - 1\<rparr>" "w' = vppcom_session_close V (fd (conn_pool wrk ! ?i)) w"
      | "wrk' = wrk" "w' = w" | "read_again k V ?m ?i (wrk, w) = Some (fl, wrk', w')"
      using c l i by (auto simp: conn_event_def Let_def split: if_splits)
    then show ?thesis
    proof cases
      case 3
      then show ?thesis
        using read_again_step [OF L 3 i] l
        by (auto simp: turn_kept_def turn_exited_def same_frame_def exit_frame_def)
    qed (use l vcl_lawsD(13) [OF L] in auto)
  qed
qed

lemma event_refines:
  assumes L: "vcl_laws V" and ok: "worker_ok V (wrk, w)" and e: "watched_event V w e"
    and r: "vts_event k V vsm e (wrk, s, w) = Some (fl, wrk', s', w')"
  shows "clients_step (label_of e) (clients_of V (wrk, w)) (clients_of V (wrk', w'))"
proof -
  from event_cases [OF assms] consider
      (same) "watched V w' = watched V w" "listen_fd wrk' = listen_fd wrk"
    | (new) "ev_u32 e = - 1" "vts_new_client V (wrk, w) = (wrk', w')"
    | (close) "ev_u32 e \<noteq> - 1" "listen_fd wrk' = listen_fd wrk"
        "watched V w' = filter (\<lambda>x. fst x \<noteq> fd (conn_pool wrk ! unat (ev_u32 e))) (watched V w)" by blast
  then show ?thesis
  proof cases
    case same
    from clients_of_same [OF this] show ?thesis by (simp add: stays)
  next
    case new
    from new_client_entry [OF L ok new(2)] consider "clients_of V (wrk', w') = clients_of V (wrk, w)"
      | f i where "watched V w' = watched V w @ [(f, word_of_nat i)]" "f \<notin> fst ` set (watched V w)" "i < 2 ^ 32 - 1"
        "i \<notin> snd ` clients_of V (wrk, w)" "listen_fd wrk' = listen_fd wrk"
      by (auto simp: clients_of_def)
    then show ?thesis
    proof cases
      case 1
      then show ?thesis by (simp add: stays)
    next
      case 2
      have "f \<noteq> listen_fd wrk" using 2(2) listen_in_watched [OF ok] by auto
      then have "{x \<in> set (watched V w'). fst x \<noteq> listen_fd wrk'}
          = insert (f, word_of_nat i) {x \<in> set (watched V w). fst x \<noteq> listen_fd wrk}"
        using 2(1,5) by auto
      then have "clients_of V (wrk', w') = insert (f, i) (clients_of V (wrk, w))"
        using small_index(2) [OF 2(3)] by (simp add: clients_of_def client_of_def)
      moreover have "f \<notin> fst ` clients_of V (wrk, w)"
        using 2(2) by (auto simp: clients_of_def client_of_def) (metis fst_conv image_eqI)
      ultimately show ?thesis using joins [OF _ 2(4)] new(1) by (simp add: label_of_def)
    qed
  next
    case close
    from clients_of_close [OF ok watched_event_slot(1) [OF ok e close(1)] close(3,2)] leaves close(1)
    show ?thesis by (metis label_of_def)
  qed
qed

section \<open>The run\<close>

lemma step_watched_event:
  assumes "step_ok V e w fl (wrk', w')" "watched_event V w e'" "ev_data e' \<noteq> ev_data e"
  shows "watched_event V w' e'"
  using assms unfolding step_ok_def watched_event_def snd_conv by blast

lemma events_refine:
  assumes L: "vcl_laws V"
  shows "vts_events k V vsm es (wrk, s, w) = Some (fl, wrk', s', w') \<Longrightarrow> worker_ok V (wrk, w) \<Longrightarrow>
    (\<forall>e \<in> set es. watched_event V w e) \<Longrightarrow> distinct (map ev_data es) \<Longrightarrow>
    \<exists>ls. clients_run ls (clients_of V (wrk, w)) (clients_of V (wrk', w'))"
proof (induction es arbitrary: wrk s w)
  case Nil
  then show ?case using clients_run_refl by auto
next
  case (Cons e es)
  obtain f1 wrk1 s1 w1 where 1: "vts_event k V vsm e (wrk, s, w) = Some (f1, wrk1, s1, w1)"
    using Cons.prems(1) by (auto split: option.splits)
  have e: "watched_event V w e" using Cons.prems(3) by simp
  note st = vts_event_ok [OF L Cons.prems(2) e 1] and rf = event_refines [OF L Cons.prems(2) e 1]
  show ?case
  proof (cases "f1 = Next")
    case True
    have "\<forall>e' \<in> set es. watched_event V w1 e'"
      using step_watched_event [OF st] Cons.prems(3,4) by (force simp: rev_image_eqI)
    then obtain ls where "clients_run ls (clients_of V (wrk1, w1)) (clients_of V (wrk', w'))"
      using Cons.IH [of wrk1 s1 w1] Cons.prems 1 True st by (auto simp: step_ok_def)
    with rf show ?thesis by (blast intro: run_cons)
  next
    case False
    then have "wrk' = wrk1" "w' = w1" using Cons.prems(1) 1 by simp_all
    with rf show ?thesis by (blast intro: run_cons run_nil)
  qed
qed

lemma loop_refines:
  assumes L: "vcl_laws V" and H: "listener_stays V"
  shows "vts_loop k V vsm (wrk, s, w) = Some (fl, wrk', s', w') \<Longrightarrow> worker_ok V (wrk, w) \<Longrightarrow>
    \<exists>ls. clients_run ls (clients_of V (wrk, w)) (clients_of V (wrk', w'))"
proof (induction k arbitrary: wrk s w)
  case (Suc k)
  obtain n evs w1 where w1: "vppcom_epoll_wait V (epfd wrk) (max_epoll_events V) w = (n, evs, w1)"
    by (metis prod_cases3)
  let ?wrk = "wrk\<lparr>wait_events := evs @ drop (length evs) (wait_events wrk)\<rparr>"
  have ok1: "worker_ok V (?wrk, w1)" and c1: "clients_of V (?wrk, w1) = clients_of V (wrk, w)"
    using worker_ok_kept [OF Suc.prems(2), of ?wrk w1] vcl_lawsD(14) [OF L w1] Suc.prems(2)
    by (simp_all add: slots_kept_def marks_def pool_ok_def worker_ok_def clients_of_def)
  consider "n < 0" | "n = 0" | "0 < n" by linarith
  then show ?case
  proof cases
    case 1
    then show ?thesis using Suc.prems(1) w1 c1 clients_run_refl by (auto simp flip: c1)
  next
    case 2
    then show ?thesis using Suc.IH [of ?wrk s w1] Suc.prems(1) w1 ok1 c1 by (simp add: Let_def)
  next
    case 3
    note E = wait_events_ok [OF L H w1 3 Suc.prems(2)]
    obtain f1 wrk2 s2 w2 where 2: "vts_events k V vsm evs (?wrk, s, w1) = Some (f1, wrk2, s2, w2)"
      and r: "(if f1 = Next then vts_loop k V vsm (wrk2, s2, w2) else Some (f1, wrk2, s2, w2)) = Some (fl, wrk', s', w')"
      using Suc.prems(1) w1 3 E(2) by (auto simp: Let_def split: if_splits option.splits)
    obtain ls where ls: "clients_run ls (clients_of V (wrk, w)) (clients_of V (wrk2, w2))"
      using events_refine [OF L 2 E(1) E(3,4)] c1 by auto
    show ?thesis
    proof (cases "f1 = Next")
      case True
      then obtain ms where "clients_run ms (clients_of V (wrk2, w2)) (clients_of V (wrk', w'))"
        using Suc.IH [of wrk2 s2 w2] vts_events_ok [OF L 2 E(1) E(3,4)] r by auto
      with ls show ?thesis by (blast intro: clients_run_append)
    next
      case False
      then show ?thesis using ls r by auto
    qed
  qed
qed simp



end
