(* ===== verification/VtsEcho.thy ===== *)
theory VtsEcho
  imports VtsDemo
begin

text \<open>
  A bidirectional test of the VCL test server is an echo: while a test is under way, the handling of
  one event reads what has arrived, however many reads it takes and in either mode (copying or
  segments), writes back exactly what it read, and returns.
\<close>

section \<open>The session\<close>

text \<open>\<open>inc f w\<close> is what the peer of descriptor \<open>f\<close> will still deliver. Reading takes a part off its
  front; the sessions are blocking, so a write that returns has written everything.\<close>

definition read_law :: "'w vcl_io \<Rightarrow> (int \<Rightarrow> 'w \<Rightarrow> u8 list) \<Rightarrow> bool" where
  "read_law V inc \<longleftrightarrow>
     (\<forall>f m s w n bs s' w'. vcl_test_read V f m s w = (n, bs, s', w') \<longrightarrow>
        written V f w' = written V f w \<and> inc f w = bs @ inc f w' \<and> length bs \<le> unat m \<and>
        rx_bytes s' = rx_bytes s + of_nat (length bs) \<and> n = (if bs = [] then min n 0 else int (length bs)))"

definition read_ds_law :: "'w vcl_io \<Rightarrow> (int \<Rightarrow> 'w \<Rightarrow> u8 list) \<Rightarrow> bool" where
  "read_ds_law V inc \<longleftrightarrow>
     (\<forall>f s w n d s' w'. vcl_test_read_ds V f s w = (n, d, s', w') \<longrightarrow>
        written V f w' = written V f w \<and> inc f w = (fst d @ snd d) @ inc f w' \<and>
        rx_bytes s' = rx_bytes s + of_nat (length (fst d @ snd d)) \<and>
        n = (if fst d @ snd d = [] then min n 0 else int (length (fst d @ snd d))))"

definition write_law :: "'w vcl_io \<Rightarrow> (int \<Rightarrow> 'w \<Rightarrow> u8 list) \<Rightarrow> bool" where
  "write_law V inc \<longleftrightarrow>
     (\<forall>f bs s v w n r w'. vcl_test_write V f bs (Some s) v w = (n, r, w') \<longrightarrow>
        written V f w' = written V f w @ bs \<and> inc f w' = inc f w \<and>
        (case r of None \<Rightarrow> False | Some s' \<Rightarrow> rx_bytes s' = rx_bytes s)) \<and>
     (\<forall>f d w. written V f (vppcom_session_free_segments V f d w) = written V f w \<and>
        inc f (vppcom_session_free_segments V f d w) = inc f w) \<and>
     (\<forall>f w t w'. clock_realtime V w = (t, w') \<longrightarrow> written V f w' = written V f w \<and> inc f w' = inc f w)"

definition reflect_laws :: "'w vcl_io \<Rightarrow> (int \<Rightarrow> 'w \<Rightarrow> u8 list) \<Rightarrow> bool" where
  "reflect_laws V inc \<longleftrightarrow> read_law V inc \<and> read_ds_law V inc \<and> write_law V inc"

lemma reflect_lawsD:
  assumes "reflect_laws V inc"
  shows "vcl_test_read V f m s w = (n, bs, s', w') \<Longrightarrow>
      written V f w' = written V f w \<and> inc f w = bs @ inc f w' \<and> length bs \<le> unat m \<and>
      rx_bytes s' = rx_bytes s + of_nat (length bs) \<and> n = (if bs = [] then min n 0 else int (length bs))"
    and "vcl_test_read_ds V f s w = (n, d, s', w') \<Longrightarrow>
      written V f w' = written V f w \<and> inc f w = (fst d @ snd d) @ inc f w' \<and>
      rx_bytes s' = rx_bytes s + of_nat (length (fst d @ snd d)) \<and>
      n = (if fst d @ snd d = [] then min n 0 else int (length (fst d @ snd d)))"
    and "vcl_test_write V f bs (Some s) v w = (n, r, w') \<Longrightarrow>
      written V f w' = written V f w @ bs \<and> inc f w' = inc f w \<and>
      (case r of None \<Rightarrow> False | Some s' \<Rightarrow> rx_bytes s' = rx_bytes s)"
    and "written V f (vppcom_session_free_segments V f d w) = written V f w"
    and "inc f (vppcom_session_free_segments V f d w) = inc f w"
    and "clock_realtime V w = (t, w') \<Longrightarrow> written V f w' = written V f w \<and> inc f w' = inc f w"
  using assms unfolding reflect_laws_def read_law_def read_ds_law_def write_law_def by - (fast+)

text \<open>What goes on in a world: \<open>f\<close>'s peer delivers \<open>bs\<close>, and \<open>f\<close> is written \<open>cs\<close>.\<close>

definition traffic :: "'w vcl_io \<Rightarrow> (int \<Rightarrow> 'w \<Rightarrow> u8 list) \<Rightarrow> int \<Rightarrow> u8 list \<Rightarrow> u8 list \<Rightarrow> 'w \<Rightarrow> 'w \<Rightarrow> bool" where
  "traffic V inc f bs cs w w' \<longleftrightarrow> inc f w = bs @ inc f w' \<and> written V f w' = written V f w @ cs"

lemma traffic_trans:
  "traffic V inc f bs cs w w1 \<Longrightarrow> traffic V inc f bs' cs' w1 w2 \<Longrightarrow> traffic V inc f (bs @ bs') (cs @ cs') w w2"
  by (simp add: traffic_def)

text \<open>A connection whose statistics changed, but for the bytes received.\<close>

definition other_stats :: "conn \<Rightarrow> conn \<Rightarrow> bool" where
  "other_stats c c' \<longleftrightarrow> c' = c\<lparr>stats := stats c'\<rparr> \<and> rx_bytes (stats c') = rx_bytes (stats c)"

lemma other_stats_refl: "other_stats c c"
  by (simp add: other_stats_def)

lemma other_stats_trans: "other_stats a b \<Longrightarrow> other_stats b c \<Longrightarrow> other_stats a c"
  by (cases a, cases b, cases c) (simp add: other_stats_def)

lemma other_stats_fields:
  "other_stats c c' \<Longrightarrow> fd c' = fd c \<and> cfg c' = cfg c \<and> buf c' = buf c \<and> buf_size c' = buf_size c \<and> ds c' = ds c
     \<and> rx_bytes (stats c') = rx_bytes (stats c)"
  by (cases c, cases c') (simp add: other_stats_def)

section \<open>Writing back\<close>

lemma conn_write_traffic:
  assumes L: "reflect_laws V inc"
  shows "\<exists>n c' w'. conn_write V bs (c, w) = (n, c', w') \<and> traffic V inc (fd c) [] bs w w' \<and> other_stats c c'"
proof -
  obtain n r w' where w: "vcl_test_write V (fd c) bs (Some (stats c)) (verbose (cfg c)) w = (n, r, w')"
    by (metis prod_cases3)
  from reflect_lawsD(3) [OF L w] obtain s where "r = Some s" "rx_bytes s = rx_bytes (stats c)"
    "traffic V inc (fd c) [] bs w w'" by (auto simp: traffic_def split: option.splits)
  with w show ?thesis by (simp add: conn_write_def other_stats_def)
qed

text \<open>What a read left behind: in the segments, or at the start of the buffer.\<close>

definition delivered :: "bool \<Rightarrow> conn \<Rightarrow> u8 list \<Rightarrow> bool" where
  "delivered m c bs \<longleftrightarrow>
     (if m then fst (ds c) @ snd (ds c) = bs
      else length bs \<le> length (buf c) \<and> take (length bs) (buf c) = bs)"

lemma reflect_traffic:
  assumes L: "reflect_laws V inc" and bs: "delivered m c bs" and t: "test (cfg c) = VCL_TEST_TYPE_BI"
  shows "\<exists>c' w'. reflect_data V m (int (length bs)) (c, w) = Some (c', w') \<and> traffic V inc (fd c) [] bs w w' \<and>
    other_stats c c'"
proof (cases m)
  case False
  obtain n c' w' where "conn_write V bs (c, w) = (n, c', w')" "traffic V inc (fd c) [] bs w w'" "other_stats c c'"
    using conn_write_traffic [OF L] by blast
  then show ?thesis using False bs t by (simp add: reflect_data_def delivered_def)
next
  case True
  obtain n c1 w1 where 1: "conn_write V (fst (ds c)) (c, w) = (n, c1, w1)"
    "traffic V inc (fd c) [] (fst (ds c)) w w1" "other_stats c c1"
    using conn_write_traffic [OF L] by blast
  note f1 = other_stats_fields [OF 1(3)]
  obtain n2 c2 w2 where 2: "conn_write V (snd (ds c)) (c1, w1) = (n2, c2, w2)"
    "traffic V inc (fd c) [] (snd (ds c)) w1 w2" "other_stats c1 c2"
    using conn_write_traffic [OF L, of "snd (ds c)" c1 w1] f1 by auto
  show ?thesis
    using True bs t 1 2 f1 traffic_trans [OF 1(2) 2(2)] other_stats_trans [OF 1(3) 2(3)]
    by (auto simp: reflect_data_def delivered_def)
qed

lemma note_stop_traffic:
  assumes L: "reflect_laws V inc"
  shows "\<exists>c' w'. note_stop V (c, w) = (c', w') \<and> traffic V inc f [] [] w w' \<and> other_stats c c'"
proof -
  obtain t w1 where "clock_realtime V w = (t, w1)" by fastforce
  with reflect_lawsD(6) [OF L this] show ?thesis
    by (simp add: note_stop_def traffic_def other_stats_def)
qed

lemma server_rx_traffic:
  assumes L: "reflect_laws V inc" and bs: "delivered m c bs" and t: "test (cfg c) = VCL_TEST_TYPE_BI"
  shows "\<exists>c' w'. vts_server_rx V m (int (length bs)) (c, w) = Some (c', w') \<and> traffic V inc (fd c) [] bs w w' \<and>
    other_stats c c'"
proof -
  obtain c1 w1 where 1: "reflect_data V m (int (length bs)) (c, w) = Some (c1, w1)"
    "traffic V inc (fd c) [] bs w w1" "other_stats c c1"
    using reflect_traffic [OF assms] by blast
  let ?w = "if m then vppcom_session_free_segments V (fd c1) (ds c1) w1 else w1"
  have "traffic V inc (fd c) [] [] w1 ?w"
    using other_stats_fields [OF 1(3)] reflect_lawsD(4,5) [OF L] by (simp add: traffic_def)
  moreover obtain c2 w2 where 2: "note_stop V (c1, ?w) = (c2, w2)" "traffic V inc (fd c) [] [] ?w w2" "other_stats c1 c2"
    using note_stop_traffic [OF L] by blast
  ultimately have "traffic V inc (fd c) [] bs w w2" using 1(2) by (simp add: traffic_def)
  with 1 2 show ?thesis by (auto simp: vts_server_rx_def intro: other_stats_trans)
qed

section \<open>One turn\<close>

lemma conn_read_traffic:
  assumes L: "reflect_laws V inc" and b: "length (buf c) = unat (buf_size c)"
  shows "\<exists>n c' w' bs. vts_conn_read V m (c, w) = Some (n, c', w') \<and> traffic V inc (fd c) bs [] w w' \<and>
    delivered m c' bs \<and> n = (if bs = [] then min n 0 else int (length bs)) \<and>
    rx_bytes (stats c') = rx_bytes (stats c) + of_nat (length bs) \<and>
    fd c' = fd c \<and> cfg c' = cfg c \<and> buf_size c' = buf_size c \<and> length (buf c') = length (buf c)"
proof (cases m)
  case False
  obtain n bs s' w' where r: "vcl_test_read V (fd c) (buf_size c) (stats c) w = (n, bs, s', w')"
    by (metis prod_cases4)
  note law = reflect_lawsD(1) [OF L r]
  then have "fill bs (buf c) = Some (bs @ drop (length bs) (buf c))" using b by (simp add: fill_def)
  then show ?thesis
    using r law b False by (simp add: vts_conn_read_def traffic_def delivered_def)
next
  case True
  obtain n d s' w' where r: "vcl_test_read_ds V (fd c) (stats c) w = (n, d, s', w')"
    by (metis prod_cases4)
  show ?thesis
    using r reflect_lawsD(2) [OF L r] True
    by (simp add: vts_conn_read_def traffic_def delivered_def) (auto split: if_splits)
qed

text \<open>Slot \<open>i\<close> is in the middle of a bidirectional test: what its peer will still deliver does not go
  beyond what was announced.\<close>

definition mid_test :: "(int \<Rightarrow> 'w \<Rightarrow> u8 list) \<Rightarrow> nat \<Rightarrow> worker \<times> 'w \<Rightarrow> bool" where
  "mid_test inc i st \<longleftrightarrow>
     i < length (conn_pool (fst st)) \<and>
     (let c = conn_pool (fst st) ! i
      in test (cfg c) = VCL_TEST_TYPE_BI \<and> length (buf c) = unat (buf_size c) \<and> 128 \<le> rx_bytes (stats c) \<and>
         unat (rx_bytes (stats c)) + length (inc (fd c) (snd st)) \<le> unat (total_bytes (cfg c)))"

definition at_slot :: "worker \<Rightarrow> nat \<Rightarrow> worker \<Rightarrow> bool" where
  "at_slot wrk i wrk' \<longleftrightarrow>
     length (conn_pool wrk') = length (conn_pool wrk) \<and> fd (conn_pool wrk' ! i) = fd (conn_pool wrk ! i) \<and>
     cfg (conn_pool wrk' ! i) = cfg (conn_pool wrk ! i) \<and> (\<forall>j. j \<noteq> i \<longrightarrow> conn_pool wrk' ! j = conn_pool wrk ! j)"

lemma at_slot_trans: "at_slot a i b \<Longrightarrow> at_slot b i c \<Longrightarrow> at_slot a i c"
  by (simp add: at_slot_def)

lemma turn_traffic:
  assumes L: "reflect_laws V inc" and M: "mid_test inc i (wrk, w)"
  shows "\<exists>fl wrk' w' bs. read_turn V m i (wrk, w) = Some (fl, wrk', w') \<and> fl \<noteq> Finished \<and>
    (fl = Read_again \<longrightarrow> bs \<noteq> []) \<and> traffic V inc (fd (conn_pool wrk ! i)) bs bs w w' \<and>
    mid_test inc i (wrk', w') \<and> at_slot wrk i wrk'"
proof -
  let ?c = "conn_pool wrk ! i" and ?f = "fd (conn_pool wrk ! i)"
  have i: "i < length (conn_pool wrk)" using M by (simp add: mid_test_def)
  obtain n c1 w1 bs where r: "vts_conn_read V m (?c, w) = Some (n, c1, w1)" "traffic V inc ?f bs [] w w1"
    "delivered m c1 bs" "n = (if bs = [] then min n 0 else int (length bs))"
    "rx_bytes (stats c1) = rx_bytes (stats ?c) + of_nat (length bs)"
    "fd c1 = ?f" "cfg c1 = cfg ?c" "buf_size c1 = buf_size ?c" "length (buf c1) = length (buf ?c)"
    using conn_read_traffic [OF L, of ?c m w] M by (auto simp: mid_test_def Let_def)
  have le: "unat (rx_bytes (stats ?c)) + length bs \<le> unat (total_bytes (cfg ?c))"
    using M r(2) by (auto simp: mid_test_def Let_def traffic_def)
  have "unat (total_bytes (cfg ?c)) < 2 ^ 64" using unsigned_less [of "total_bytes (cfg ?c)", where 'a = nat] by simp
  then have rx: "unat (rx_bytes (stats c1)) = unat (rx_bytes (stats ?c)) + length bs"
    using le r(5) by (simp add: unat_word_ariths unat_of_nat)
  have next_ok: "mid_test inc i (upd_conn wrk i (\<lambda>_. c'), w') \<and> at_slot wrk i (upd_conn wrk i (\<lambda>_. c'))"
    if "other_stats c1 c'" "traffic V inc ?f [] cs w1 w'" for c' w' cs
    using M i r(2,5-9) rx other_stats_fields [OF that(1)] that(2)
    by (auto simp: mid_test_def Let_def traffic_def at_slot_def upd_conn_def word_le_nat_alt)
  show ?thesis
  proof (cases "bs = []")
    case True
    then have "n \<le> 0" using r(4) by auto
    then have "read_turn V m i (wrk, w) = Some (if errno_connreset V w1 then Failed else Next, upd_conn wrk i (\<lambda>_. c1), w1)"
      using r(1) by (simp add: read_turn_def)
    moreover have "traffic V inc ?f [] [] w w1" using r(2) True by simp
    moreover have "traffic V inc ?f [] [] w1 w1" by (simp add: traffic_def)
    ultimately show ?thesis using next_ok [OF other_stats_refl] by auto
  next
    case False
    have pos: "\<not> n \<le> 0" "n = int (length bs)" using False r(4) by auto
    have t: "test (cfg c1) = VCL_TEST_TYPE_BI" using M r(7) by (simp add: mid_test_def Let_def)
    have "config_message V m c1 = Some (None, c1)"
      using t le rx r(7) M
      by (auto simp: config_message_def vts_conn_expect_config_def mid_test_def Let_def word_less_nat_alt word_le_nat_alt)
    moreover obtain c2 w2 where s: "vts_server_rx V m n (c1, w1) = Some (c2, w2)" "traffic V inc ?f [] bs w1 w2" "other_stats c1 c2"
      using server_rx_traffic [OF L r(3) t, of w1] r(6) pos(2) by auto
    ultimately have "read_turn V m i (wrk, w) = Some (if vppcom_get_nread V (fd c2) w2 > 0 then Read_again else Next,
        upd_conn wrk i (\<lambda>_. c2), w2)"
      using r(1) pos(1) t by (simp add: read_turn_def handle_data_def)
    moreover have "traffic V inc ?f bs bs w w2" using traffic_trans [OF r(2) s(2)] by simp
    ultimately show ?thesis using next_ok [OF s(3,2)] False by auto
  qed
qed

section \<open>One event\<close>


section \<open>A session\<close>

text \<open>The small world with a stream of bytes to come, read as far as the reader asks.\<close>

definition stream_in :: "int \<Rightarrow> demo_world \<Rightarrow> u8 list" where
  "stream_in f w = concat (map snd (dw_in w))"

definition stream_read :: "nat \<Rightarrow> demo_world \<Rightarrow> int \<times> u8 list \<times> demo_world" where
  "stream_read m w =
     (let bs = take m (stream_in 0 w) in (int (length bs), bs, w\<lparr>dw_in := [(0, drop m (stream_in 0 w))]\<rparr>))"

definition stream_vcl :: "demo_world vcl_io" where
  "stream_vcl = demo_vcl
     \<lparr>vcl_test_read := (\<lambda>f m s w. case stream_read (unat m) w of (n, bs, w) \<Rightarrow> (n, bs, add_rx n s, w)),
      vcl_test_read_ds := (\<lambda>f s w. case stream_read 6 w of (n, bs, w) \<Rightarrow> (n, (take 4 bs, drop 4 bs), add_rx n s, w)),
      vppcom_get_nread := (\<lambda>f w. int (length (stream_in f w)))\<rparr>"

lemma stream_read_law:
  "stream_read m w = (n, bs, w') \<Longrightarrow>
     stream_in f w = bs @ stream_in f w' \<and> n = int (length bs) \<and> length bs \<le> m \<and> dw_log w' = dw_log w"
  by (auto simp: stream_read_def stream_in_def Let_def)

lemma stream_written: "dw_log w' = dw_log w \<Longrightarrow> written stream_vcl f w' = written stream_vcl f w"
  by (simp add: stream_vcl_def demo_vcl_def)

lemma stream_read_laws: "read_law stream_vcl stream_in"
  unfolding read_law_def
proof (intro allI impI)
  fix f m s w n bs s' w' assume "vcl_test_read stream_vcl f m s w = (n, bs, s', w')"
  then have "stream_read (unat m) w = (n, bs, w')" "s' = add_rx n s"
    by (auto simp: stream_vcl_def split: prod.splits)
  with stream_read_law [of "unat m" w n bs w' f] stream_written [of w' w f]
  show "written stream_vcl f w' = written stream_vcl f w \<and> stream_in f w = bs @ stream_in f w' \<and> length bs \<le> unat m \<and>
      rx_bytes s' = rx_bytes s + of_nat (length bs) \<and> n = (if bs = [] then min n 0 else int (length bs))"
    by (auto simp: add_rx_def)
qed

lemma stream_read_ds_laws: "read_ds_law stream_vcl stream_in"
  unfolding read_ds_law_def
proof (intro allI impI)
  fix f s w n d s' w' assume "vcl_test_read_ds stream_vcl f s w = (n, d, s', w')"
  then have "stream_read 6 w = (n, fst d @ snd d, w')" "s' = add_rx n s"
    by (auto simp: stream_vcl_def split: prod.splits)
  with stream_read_law [of 6 w n "fst d @ snd d" w' f] stream_written [of w' w f]
  show "written stream_vcl f w' = written stream_vcl f w \<and> stream_in f w = (fst d @ snd d) @ stream_in f w' \<and>
      rx_bytes s' = rx_bytes s + of_nat (length (fst d @ snd d)) \<and>
      n = (if fst d @ snd d = [] then min n 0 else int (length (fst d @ snd d)))"
    by (auto simp: add_rx_def)
qed

lemma stream_reflect_laws: "reflect_laws stream_vcl stream_in"
  using stream_read_laws stream_read_ds_laws
  by (auto simp: reflect_laws_def write_law_def stream_vcl_def demo_vcl_def stream_in_def)


end
