(* ===== verification/VtsMain.thy ===== *)
theory VtsMain
  imports VtsDemo CText
begin

text \<open>
  The VCL test server (\<open>src/src/vcl-test-server/main.c\<close>), part 4: its command line
  (\<open>vcl_test_server_process_opts\<close>, \<open>vcl_test_init_endpoint_addr\<close>), \<open>main\<close> up to the creation of
  the workers, and the shared counters the worker threads and \<open>main\<close> read and write.

  The options are what the C library's \<open>getopt\<close> delivers. Leaving the program through
  \<open>print_usage_and_exit\<close> is \<open>None\<close> in the parsing of options, \<open>Usage\<close> in \<open>main\<close>.
\<close>

section \<open>The command line\<close>

datatype vts_opt = Opt_6 | Opt_D | Opt_L | Opt_s | Opt_w string | Opt_help

definition vcl_test_init_endpoint_addr :: "server_main \<Rightarrow> server_main" where
  "vcl_test_init_endpoint_addr vsm =
     (let vc = vcfg vsm;
          sa = (if address_ip6 vc \<noteq> 0
                then \<lparr>sa_family = AF_INET6, sa_addr = replicate 16 0, sa_port = bswap16 (port vc)\<rparr>
                else \<lparr>sa_family = AF_INET, sa_addr = replicate 4 0, sa_port = bswap16 (port vc)\<rparr>);
          vsm = vsm\<lparr>servaddr := sa\<rparr>
      in vsm\<lparr>vcfg := vc\<lparr>cfg_endpt :=
           \<lparr>is_ip4 = (if address_ip6 vc \<noteq> 0 then 0 else 1), ep_ip = sa_addr sa, ep_port = sa_port sa\<rparr>\<rparr>\<rparr>)"

fun vts_option :: "vts_opt \<Rightarrow> server_main \<Rightarrow> server_main option" where
  "vts_option Opt_6 vsm = Some (vsm\<lparr>vcfg := (vcfg vsm)\<lparr>address_ip6 := 1\<rparr>\<rparr>)"
| "vts_option Opt_D vsm = Some (vsm\<lparr>vcfg := (vcfg vsm)\<lparr>proto := VPPCOM_PROTO_UDP\<rparr>\<rparr>)"
| "vts_option Opt_L vsm = Some (vsm\<lparr>vcfg := (vcfg vsm)\<lparr>proto := VPPCOM_PROTO_TLS\<rparr>\<rparr>)"
| "vts_option Opt_s vsm = Some (vsm\<lparr>use_ds := 1\<rparr>)"
| "vts_option (Opt_w a) vsm =
     (let v = atoi a
      in Some (if v > 1 then vsm\<lparr>vcfg := (vcfg vsm)\<lparr>workers_cfg := word_of_int v\<rparr>\<rparr> else vsm))"
| "vts_option Opt_help vsm = None"

text \<open>\<open>args\<close> are the arguments after the options.\<close>

definition vcl_test_server_process_opts :: "vts_opt list \<Rightarrow> string list \<Rightarrow> server_main \<Rightarrow> server_main option" where
  "vcl_test_server_process_opts opts args vsm =
     (case run_steps vts_option opts (vsm\<lparr>vcfg := (vcfg vsm)\<lparr>proto := VPPCOM_PROTO_TCP\<rparr>\<rparr>) of
        None \<Rightarrow> None
      | Some vsm \<Rightarrow>
          (case args of
             [] \<Rightarrow> None
           | a # _ \<Rightarrow>
               (case scan_int a of
                  None \<Rightarrow> None
                | Some v \<Rightarrow>
                    Some (vcl_test_init_endpoint_addr (vsm\<lparr>vcfg := (vcfg vsm)\<lparr>port := word_of_int v\<rparr>\<rparr>)))))"

section \<open>The start of the program\<close>

definition zero_worker :: worker where
  "zero_worker = \<lparr>wrk_index = 0, listen_fd = 0, epfd = 0, wait_events = [], conn_pool_size = 0, conn_pool = [], nfds = 0\<rparr>"

text \<open>\<open>server_port\<close> is \<open>VCL_TEST_SERVER_PORT\<close>; the static server starts from zeros.\<close>

definition main_server :: "u16 \<Rightarrow> server_main" where
  "main_server server_port =
     \<lparr>vcfg = \<lparr>port = server_port, address_ip6 = 0, proto = VPPCOM_PROTO_TCP, workers_cfg = 1,
        cfg_endpt = \<lparr>is_ip4 = 0, ep_ip = [], ep_port = 0\<rparr>\<rparr>,
      servaddr = \<lparr>sa_family = 0, sa_addr = [], sa_port = 0\<rparr>,
      worker_fails = 0, active_workers = 0, use_ds = 0\<rparr>"

text \<open>The array of workers, each with its index, and the first one started. The result \<open>None\<close> is a
  use of the first worker of an array that has none.\<close>

definition main_workers ::
    "'w vcl_io \<Rightarrow> u32 \<Rightarrow> server_main \<Rightarrow> 'w \<Rightarrow> (vtfail + server_main \<times> worker list \<times> 'w) option" where
  "main_workers V junk vsm w =
     (let ws = map (\<lambda>i. zero_worker\<lparr>wrk_index := word_of_nat i\<rparr>) [0..<unat (workers_cfg (vcfg vsm))]
      in case ws of
           [] \<Rightarrow> None
         | w0 # rest \<Rightarrow>
             Some (case vts_worker_init V junk vsm (w0, w) of
                     Inl e \<Rightarrow> Inl e
                   | Inr (vsm, w0, w) \<Rightarrow> Inr (vsm, w0 # rest, w)))"

definition vts_main_start ::
    "'w vcl_io \<Rightarrow> u16 \<Rightarrow> ('w \<Rightarrow> int \<times> 'w) \<Rightarrow> u32 \<Rightarrow> vts_opt list \<Rightarrow> string list \<Rightarrow> 'w \<Rightarrow>
      (vtfail + server_main \<times> worker list \<times> 'w) option" where
  "vts_main_start V server_port vppcom_app_create junk opts args w =
     (case vcl_test_server_process_opts opts args (main_server server_port) of
        None \<Rightarrow> Some (Inl Usage)
      | Some vsm \<Rightarrow>
          (case vppcom_app_create w of
             (rv, w) \<Rightarrow>
               if rv \<noteq> 0 then Some (Inl (Vtfail ''vppcom_app_create()'' rv))
               else main_workers V junk vsm w))"

text \<open>The rest of \<open>main\<close>. The other workers are threads: \<open>others\<close> are their changes of the two shared
  counters, up to \<open>main\<close>'s first reading of \<open>active_workers\<close> and between each two of its readings;
  \<open>None\<close> is a \<open>main\<close> that still spins. It ends with the exit status, after \<open>vppcom_app_destroy\<close>.\<close>

fun main_spins :: "(int \<times> int) list \<Rightarrow> server_main \<Rightarrow> server_main option" where
  "main_spins [] vsm = None"
| "main_spins (d # changes) vsm =
     (let vsm = vsm\<lparr>active_workers := active_workers vsm + fst d, worker_fails := worker_fails vsm + snd d\<rparr>
      in if active_workers vsm > 0 then main_spins changes vsm else Some vsm)"

definition vts_main ::
    "'w vcl_io \<Rightarrow> u16 \<Rightarrow> ('w \<Rightarrow> int \<times> 'w) \<Rightarrow> ('w \<Rightarrow> 'w) \<Rightarrow> u32 \<Rightarrow> nat \<Rightarrow> (int \<times> int) list \<Rightarrow>
      vts_opt list \<Rightarrow> string list \<Rightarrow> 'w \<Rightarrow> (vtfail + int \<times> 'w) option" where
  "vts_main V server_port vppcom_app_create vppcom_app_destroy junk k others opts args w =
     (case vts_main_start V server_port vppcom_app_create junk opts args w of
        None \<Rightarrow> None
      | Some (Inl e) \<Rightarrow> Some (Inl e)
      | Some (Inr (vsm, ws, w)) \<Rightarrow>
          (case vts_worker_loop k V junk vsm (hd ws, dgram_status_zero, w) of
             None \<Rightarrow> None
           | Some (Inl e) \<Rightarrow> Some (Inl e)
           | Some (Inr (vsm, _, _, w)) \<Rightarrow>
               map_option (\<lambda>vsm. Inr (worker_fails vsm, vppcom_app_destroy w)) (main_spins others vsm)))"

section \<open>What the options do\<close>

text \<open>C31: the endpoint the workers bind to: for a port given in decimal notation the port is that
  number modulo \<open>2 ^ 16\<close>, in network order in the endpoint and in the socket address, and the
  address is the any-address of the family that the options chose.\<close>

theorem options_endpoint:
  assumes "vcl_test_server_process_opts opts (dec n # rest) vsm = Some vsm'"
  shows "port (vcfg vsm') = word_of_nat n \<and> ep_port (cfg_endpt (vcfg vsm')) = bswap16 (word_of_nat n) \<and>
    sa_port (servaddr vsm') = ep_port (cfg_endpt (vcfg vsm')) \<and>
    sa_addr (servaddr vsm') = ep_ip (cfg_endpt (vcfg vsm')) \<and>
    (if Opt_6 \<in> set opts \<or> address_ip6 (vcfg vsm) \<noteq> 0
     then is_ip4 (cfg_endpt (vcfg vsm')) = 0 \<and> ep_ip (cfg_endpt (vcfg vsm')) = replicate 16 0 \<and>
       sa_family (servaddr vsm') = AF_INET6
     else is_ip4 (cfg_endpt (vcfg vsm')) = 1 \<and> ep_ip (cfg_endpt (vcfg vsm')) = replicate 4 0 \<and>
       sa_family (servaddr vsm') = AF_INET)"
proof -
  have run: "run_steps vts_option opts m = Some m' \<Longrightarrow>
      address_ip6 (vcfg m') \<noteq> 0 \<longleftrightarrow> Opt_6 \<in> set opts \<or> address_ip6 (vcfg m) \<noteq> 0" for m m'
  proof (induction opts arbitrary: m)
    case (Cons o' opts)
    then obtain m1 where "vts_option o' m = Some m1" "run_steps vts_option opts m1 = Some m'"
      by (auto split: option.splits)
    then show ?case using Cons.IH [of m1] by (cases o') (auto simp: Let_def split: if_splits)
  qed simp
  obtain m where m: "run_steps vts_option opts (vsm\<lparr>vcfg := (vcfg vsm)\<lparr>proto := VPPCOM_PROTO_TCP\<rparr>\<rparr>) = Some m"
    and v: "vsm' = vcl_test_init_endpoint_addr (m\<lparr>vcfg := (vcfg m)\<lparr>port := word_of_nat n\<rparr>\<rparr>)"
    using assms by (auto simp: vcl_test_server_process_opts_def scan_dec split: option.splits)
  from run [OF m] show ?thesis by (auto simp: v vcl_test_init_endpoint_addr_def Let_def)
qed


theorem options_endpoint_witness:
  "(case vcl_test_server_process_opts [Opt_6, Opt_L] [dec 70000] (main_server 22000) of
      None \<Rightarrow> False
    | Some vsm \<Rightarrow> port (vcfg vsm) = 4464 \<and> is_ip4 (cfg_endpt (vcfg vsm)) = 0 \<and>
        length (ep_ip (cfg_endpt (vcfg vsm))) = 16)"
proof -
  have "vcl_test_server_process_opts [Opt_6, Opt_L] [dec 70000] (main_server 22000) \<noteq> None"
    by (simp add: vcl_test_server_process_opts_def scan_dec)
  then obtain vsm where v: "vcl_test_server_process_opts [Opt_6, Opt_L] [dec 70000] (main_server 22000) = Some vsm"
    by blast
  from options_endpoint [OF v] v show ?thesis by simp
qed


section \<open>A server of one worker\<close>

lemma option_workers:
  "vts_option x vsm = Some vsm' \<Longrightarrow> (\<forall>a. x \<noteq> Opt_w a) \<Longrightarrow>
     workers_cfg (vcfg vsm') = workers_cfg (vcfg vsm) \<and> active_workers vsm' = active_workers vsm
     \<and> worker_fails vsm' = worker_fails vsm"
  by (cases x) auto

lemma options_workers:
  "run_steps vts_option opts vsm = Some vsm' \<Longrightarrow> (\<forall>a. Opt_w a \<notin> set opts) \<Longrightarrow>
     workers_cfg (vcfg vsm') = workers_cfg (vcfg vsm) \<and> active_workers vsm' = active_workers vsm
     \<and> worker_fails vsm' = worker_fails vsm"
proof (induction opts arbitrary: vsm)
  case (Cons x opts)
  then obtain vsm1 where 1: "vts_option x vsm = Some vsm1" "run_steps vts_option opts vsm1 = Some vsm'"
    by (auto split: option.splits)
  have "\<forall>a. x \<noteq> Opt_w a" using Cons.prems(2) by auto
  from option_workers [OF 1(1) this] Cons.IH [OF 1(2)] Cons.prems(2) show ?case by simp
qed simp

lemma init_index:
  assumes "vts_worker_init V junk vsm (wrk, w) = Inr (vsm', wrk', w')"
  shows "wrk_index wrk' = wrk_index wrk"
proof -
  obtain wrk1 w1 where e: "conn_pool_expand V (max_test_sess V + 1) (wrk, w) = (wrk1, w1)" by fastforce
  have "wrk_index wrk1 = wrk_index wrk" using expand_shape [OF e] by auto
  then show ?thesis
    using assms e
    by (auto simp: vts_worker_init_def bind_listener_def add_listener_def Let_def
        split: prod.splits if_splits sum.splits)
qed

text \<open>C32: The server with the one worker it has by default. When \<open>main\<close> returns, its status is 0 or -1; it
  is 0 only after every client and the listener are no longer watched, and the wait for the other
  workers, which there are none of, does not hold it up.\<close>

theorem single_worker_exit:
  assumes laws: "vcl_laws V" "setup_laws V" "listener_stays V"
    and "\<forall>a. Opt_w a \<notin> set opts" and w: "watched V w = []" and create: "watched V (snd (create w)) = watched V w"
    and m: "vts_main V sp create destroy junk k ((0, 0) # others) opts args w = Some (Inr (r, w'))"
  shows "r = 0 \<and> (\<exists>w1. w' = destroy w1 \<and> watched V w1 = []) \<or> r = - 1"
proof -
  obtain vsm ws w1 where 1: "vts_main_start V sp create junk opts args w = Some (Inr (vsm, ws, w1))"
    and l: "(case vts_worker_loop k V junk vsm (hd ws, dgram_status_zero, w1) of
             None \<Rightarrow> None
           | Some (Inl e) \<Rightarrow> Some (Inl e)
           | Some (Inr (vsm, _, _, w)) \<Rightarrow>
               map_option (\<lambda>vsm. Inr (worker_fails vsm, destroy w)) (main_spins ((0, 0) # others) vsm)) = Some (Inr (r, w'))"
    using m by (auto simp: vts_main_def simp del: main_spins.simps split: option.splits sum.splits)
  obtain vsm0 w0 where p: "vcl_test_server_process_opts opts args (main_server sp) = Some vsm0"
    and c: "create w = (0, w0)" and mw: "main_workers V junk vsm0 w0 = Some (Inr (vsm, ws, w1))"
    using 1 by (auto simp: vts_main_start_def split: option.splits prod.splits if_splits)
  obtain vsm00 v where "run_steps vts_option opts ((main_server sp)\<lparr>vcfg := (vcfg (main_server sp))\<lparr>proto := VPPCOM_PROTO_TCP\<rparr>\<rparr>)
      = Some vsm00" "vsm0 = vcl_test_init_endpoint_addr (vsm00\<lparr>vcfg := (vcfg vsm00)\<lparr>port := v\<rparr>\<rparr>)"
    using p by (auto simp: vcl_test_server_process_opts_def split: option.splits list.splits)
  then have v0: "workers_cfg (vcfg vsm0) = 1" "active_workers vsm0 = 0" "worker_fails vsm0 = 0"
    using options_workers [OF _ assms(4)] by (auto simp: vcl_test_init_endpoint_addr_def main_server_def Let_def)
  obtain wrk1 where i: "vts_worker_init V junk vsm0 (zero_worker\<lparr>wrk_index := 0\<rparr>, w0) = Inr (vsm, wrk1, w1)"
    and ws: "ws = [wrk1]"
    using mw v0(1) by (auto simp: main_workers_def split: sum.splits)
  have fresh: "worker_fresh V (zero_worker\<lparr>wrk_index := 0\<rparr>, w0)"
    using w create c by (simp add: worker_fresh_def zero_worker_def)
  note ok = init_ok [OF laws(1,2) fresh i]
  have "wrk_index wrk1 = 0" using init_index [OF i] by simp
  then obtain fl wrk2 s2 w2 where lp: "vts_loop k V vsm (wrk1, dgram_status_zero, w1) = Some (fl, wrk2, s2, w2)"
    and rw: "r = (if fl = Failed then - 1 else 0)" "w' = destroy (vppcom_session_close V (listen_fd wrk2) w2)"
    using l ws ok v0 by (auto simp: vts_worker_loop_def worker_exit_def Let_def split: option.splits if_splits)
  from vts_loop_ok [OF laws(1,3) lp] ok have ok2: "worker_ok V (wrk2, w2)"
    and fl: "fl = Finished \<and> nfds wrk2 = 0 \<or> fl = Failed" by auto
  have "watched V (vppcom_session_close V (listen_fd wrk2) w2) = []" if "nfds wrk2 = 0"
  proof -
    have "length (watched V w2) = 1" "listen_fd wrk2 \<in> fst ` set (watched V w2)"
      using ok2 that by (simp_all add: worker_ok_def)
    then show ?thesis by (cases "watched V w2") (auto simp: vcl_lawsD(13) [OF laws(1)])
  qed
  with fl rw show ?thesis by auto
qed

lemma demo_main_init:
  "proto (vcfg vsm) = VPPCOM_PROTO_TCP \<Longrightarrow>
     vts_worker_init demo_vcl 0 vsm (zero_worker\<lparr>wrk_index := 0\<rparr>, demo_session) =
       Inr (vsm\<lparr>active_workers := active_workers vsm + 1\<rparr>,
         (demo_worker [])\<lparr>conn_pool_size := 1, conn_pool := [fst (fresh_conn demo_vcl demo_session)]\<rparr>,
         demo_session\<lparr>dw_watch := [(1, 0xFFFFFFFF)]\<rparr>)"
  by (simp add: vts_worker_init_def conn_pool_expand_def fresh_conn_def demo_worker_def zero_worker_def
      bind_listener_def add_listener_def listen_data_def mask_eq_exp_minus_1 demo_session_def demo_world0_def)

lemma demo_main_returns:
  "\<exists>w'. vts_main demo_vcl 22000 (\<lambda>w. (0, w)) id 0 3 [(0, 0)] [] [dec 5000] demo_session = Some (Inr (0, w'))"
proof -
  obtain vsm where p: "vcl_test_server_process_opts [] [dec 5000] (main_server 22000) = Some vsm"
    and v: "proto (vcfg vsm) = VPPCOM_PROTO_TCP" "use_ds vsm = 0" "workers_cfg (vcfg vsm) = 1"
      "active_workers vsm = 0" "worker_fails vsm = 0"
    by (auto simp: vcl_test_server_process_opts_def scan_dec vcl_test_init_endpoint_addr_def main_server_def Let_def)
  let ?wrk = "(demo_worker [])\<lparr>conn_pool_size := 1, conn_pool := [fst (fresh_conn demo_vcl demo_session)]\<rparr>"
  let ?w = "demo_session\<lparr>dw_watch := [(1, 0xFFFFFFFF)]\<rparr>" and ?vsm = "vsm\<lparr>active_workers := 1\<rparr>"
  have "vts_main_start demo_vcl 22000 (\<lambda>w. (0, w)) 0 [] [dec 5000] demo_session = Some (Inr (?vsm, [?wrk], ?w))"
    using p v demo_main_init [OF v(1)] by (simp add: vts_main_start_def main_workers_def)
  moreover obtain wrk' s' w' where "vts_loop 3 demo_vcl ?vsm (?wrk, dgram_status_zero, ?w) = Some (Finished, wrk', s', w')"
    using demo_loop_any [of ?vsm] v by auto
  ultimately show ?thesis
    using v by (simp add: vts_main_def vts_worker_loop_def worker_exit_def demo_worker_def)
qed

theorem single_worker_exit_witness:
  "(case vts_main demo_vcl 22000 (\<lambda>w. (0, w)) id 0 3 [(0, 0)] [] [dec 5000] demo_session of
      Some (Inr (r, w')) \<Rightarrow> r = 0 \<and> dw_watch w' = []
    | _ \<Rightarrow> False)"
proof -
  obtain w' where m: "vts_main demo_vcl 22000 (\<lambda>w. (0, w)) id 0 3 [(0, 0)] [] [dec 5000] demo_session = Some (Inr (0, w'))"
    using demo_main_returns by blast
  have "watched demo_vcl demo_session = []" by (simp add: demo_session_def demo_world0_def)
  from single_worker_exit [OF demo_vcl_laws demo_setup_laws demo_listener_stays _ this _ m] m
  show ?thesis by simp
qed

end
