(* ===== verification/VtsThreads.thy ===== *)
theory VtsThreads
  imports Prelude
begin

text \<open>
  The VCL test server (\<open>src/src/vcl-test-server/main.c\<close>), part 5: the counters the worker threads
  share with \<open>main\<close>. \<open>active_workers += 1\<close> at the end of \<open>vts_worker_init\<close>, \<open>worker_fails -= 1\<close>
  and \<open>active_workers -= 1\<close> at the end of \<open>vts_worker_loop\<close> are a read and a write each of a
  volatile \<open>int\<close>: between the two another thread may run. \<open>main\<close> starts worker 0 itself, runs its
  loop, and then spins until \<open>active_workers\<close> is not positive.
\<close>

section \<open>The threads\<close>

text \<open>Where a worker is: not started, inside one of the three updates (with the value it read),
  in its loop, or past it; the flag says that it went through \<open>fail\<close>.\<close>

datatype phase =
    Idle | Up_loaded int | Serving | Fail_loaded int | Leaving bool | Down_loaded bool int | Ended bool

record threads =
  t_active :: int
  t_fails :: int
  t_phase :: "phase list"
  t_main_left :: bool

definition enter :: "nat \<Rightarrow> phase \<Rightarrow> threads \<Rightarrow> threads" where
  "enter i p s = s\<lparr>t_phase := (t_phase s)[i := p]\<rparr>"

definition at_phase :: "threads \<Rightarrow> nat \<Rightarrow> phase \<Rightarrow> bool" where
  "at_phase s i p \<longleftrightarrow> i < length (t_phase s) \<and> t_phase s ! i = p"

inductive thread_step :: "threads \<Rightarrow> threads \<Rightarrow> bool" where
  up_load: "at_phase s i Idle \<Longrightarrow> thread_step s (enter i (Up_loaded (t_active s)) s)"
| up_store: "at_phase s i (Up_loaded n) \<Longrightarrow> thread_step s (enter i Serving (s\<lparr>t_active := n + 1\<rparr>))"
| finish: "at_phase s i Serving \<Longrightarrow> thread_step s (enter i (Leaving False) s)"
| fail_load: "at_phase s i Serving \<Longrightarrow> thread_step s (enter i (Fail_loaded (t_fails s)) s)"
| fail_store: "at_phase s i (Fail_loaded n) \<Longrightarrow> thread_step s (enter i (Leaving True) (s\<lparr>t_fails := n - 1\<rparr>))"
| down_load: "at_phase s i (Leaving b) \<Longrightarrow> thread_step s (enter i (Down_loaded b (t_active s)) s)"
| down_store: "at_phase s i (Down_loaded b n) \<Longrightarrow> thread_step s (enter i (Ended b) (s\<lparr>t_active := n - 1\<rparr>))"
| main_leaves: "at_phase s 0 (Ended b) \<Longrightarrow> t_active s \<le> 0 \<Longrightarrow> thread_step s (s\<lparr>t_main_left := True\<rparr>)"

text \<open>\<open>main\<close> has started worker 0.\<close>

definition threads_start :: "nat \<Rightarrow> threads" where
  "threads_start n = \<lparr>t_active = 1, t_fails = 0, t_phase = Serving # replicate (n - 1) Idle, t_main_left = False\<rparr>"

inductive thread_run :: "nat \<Rightarrow> threads \<Rightarrow> bool" for n where
  run_start: "thread_run n (threads_start n)"
| run_step: "thread_run n s \<Longrightarrow> thread_step s s' \<Longrightarrow> thread_run n s'"

text \<open>A run in which no two updates overlap.\<close>

fun loaded :: "phase \<Rightarrow> bool" where
  "loaded (Up_loaded n) = True"
| "loaded (Fail_loaded n) = True"
| "loaded (Down_loaded b n) = True"
| "loaded p = False"

definition one_at_a_time :: "threads \<Rightarrow> bool" where
  "one_at_a_time s \<longleftrightarrow> length (filter loaded (t_phase s)) \<le> 1"

inductive serial_run :: "nat \<Rightarrow> threads \<Rightarrow> bool" for n where
  serial_start: "serial_run n (threads_start n)"
| serial_step: "serial_run n s \<Longrightarrow> thread_step s s' \<Longrightarrow> one_at_a_time s' \<Longrightarrow> serial_run n s'"

inductive_cases thread_stepE: "thread_step s s'"

section \<open>The counters count\<close>

fun on_duty :: "phase \<Rightarrow> bool" where
  "on_duty Serving = True"
| "on_duty (Fail_loaded n) = True"
| "on_duty (Leaving b) = True"
| "on_duty (Down_loaded b n) = True"
| "on_duty p = False"

fun went_wrong :: "phase \<Rightarrow> bool" where
  "went_wrong (Leaving b) = b"
| "went_wrong (Down_loaded b n) = b"
| "went_wrong (Ended b) = b"
| "went_wrong p = False"

text \<open>The value a thread has read is the current one.\<close>

fun up_to_date :: "threads \<Rightarrow> phase \<Rightarrow> bool" where
  "up_to_date s (Up_loaded n) = (n = t_active s)"
| "up_to_date s (Fail_loaded n) = (n = t_fails s)"
| "up_to_date s (Down_loaded b n) = (n = t_active s)"
| "up_to_date s p = True"

definition count_of :: "(phase \<Rightarrow> bool) \<Rightarrow> threads \<Rightarrow> int" where
  "count_of P s = int (length (filter P (t_phase s)))"

definition threads_ok :: "threads \<Rightarrow> bool" where
  "threads_ok s \<longleftrightarrow>
     t_active s = count_of on_duty s \<and> t_fails s = - count_of went_wrong s \<and>
     one_at_a_time s \<and> (\<forall>i < length (t_phase s). up_to_date s (t_phase s ! i))"

lemma count_enter:
  "at_phase s i p \<Longrightarrow> count_of P (enter i q s) = count_of P s - of_bool (P p) + of_bool (P q)"
  using length_filter_update [of i "t_phase s" P q]
  by (auto simp: count_of_def enter_def at_phase_def)

lemma count_of_simps [simp]:
  "count_of P (s\<lparr>t_active := n\<rparr>) = count_of P s" "count_of P (s\<lparr>t_fails := n\<rparr>) = count_of P s"
  "count_of P (s\<lparr>t_main_left := b\<rparr>) = count_of P s"
  by (simp_all add: count_of_def)

lemma at_phase_simps [simp]:
  "at_phase (s\<lparr>t_active := n\<rparr>) i p = at_phase s i p" "at_phase (s\<lparr>t_fails := n\<rparr>) i p = at_phase s i p"
  by (simp_all add: at_phase_def)

lemma enter_simps [simp]:
  "t_active (enter i p s) = t_active s" "t_fails (enter i p s) = t_fails s"
  "t_main_left (enter i p s) = t_main_left s" "length (t_phase (enter i p s)) = length (t_phase s)"
  "i < length (t_phase s) \<Longrightarrow> t_phase (enter i p s) ! j = (if j = i then p else t_phase s ! j)"
  by (auto simp: enter_def nth_list_update)

text \<open>When one thread is inside an update no other is.\<close>

lemma others_not_loaded:
  assumes "one_at_a_time s" and "at_phase s i p" and "loaded p" and "j < length (t_phase s)" and "j \<noteq> i"
  shows "\<not> loaded (t_phase s ! j)"
proof
  assume l: "loaded (t_phase s ! j)"
  have "{i, j} \<subseteq> {k. k < length (t_phase s) \<and> loaded (t_phase s ! k)}"
    using assms l by (auto simp: at_phase_def)
  then have "card {i, j} \<le> card {k. k < length (t_phase s) \<and> loaded (t_phase s ! k)}"
    by (intro card_mono) auto
  also have "\<dots> = length (filter loaded (t_phase s))" by (simp add: length_filter_conv_card)
  finally show False using assms(1,5) by (simp add: one_at_a_time_def)
qed

lemma not_loaded_up_to_date: "\<not> loaded p \<Longrightarrow> up_to_date s p"
  by (cases p) simp_all

lemma up_to_date_same:
  "t_active s' = t_active s \<Longrightarrow> t_fails s' = t_fails s \<Longrightarrow> up_to_date s' p = up_to_date s p"
  by (cases p) simp_all

lemma threads_ok_step:
  assumes ok: "threads_ok s" and one: "one_at_a_time s'" and st: "thread_step s s'"
  shows "threads_ok s'"
proof -
  have dates: "\<forall>j < length (t_phase s). j \<noteq> i \<longrightarrow> up_to_date s2 (t_phase s ! j)"
    if "at_phase s i p" "loaded p \<or> t_active s2 = t_active s \<and> t_fails s2 = t_fails s" for i p s2
    using that ok others_not_loaded not_loaded_up_to_date up_to_date_same [of s2 s]
    by (auto simp: threads_ok_def)
  have cur: "up_to_date s p" if "at_phase s i p" for i p
    using ok that by (auto simp: threads_ok_def at_phase_def)
  from st show ?thesis
  proof cases
    case (up_load i)
    then show ?thesis using ok one dates [of i Idle] by (auto simp: threads_ok_def count_enter at_phase_def)
  next
    case (up_store i n)
    then show ?thesis using ok one dates [of i "Up_loaded n"] cur [of i "Up_loaded n"]
      by (auto simp: threads_ok_def count_enter at_phase_def)
  next
    case (finish i)
    then show ?thesis using ok one dates [of i Serving] by (auto simp: threads_ok_def count_enter at_phase_def)
  next
    case (fail_load i)
    then show ?thesis using ok one dates [of i Serving] by (auto simp: threads_ok_def count_enter at_phase_def)
  next
    case (fail_store i n)
    then show ?thesis using ok one dates [of i "Fail_loaded n"] cur [of i "Fail_loaded n"]
      by (auto simp: threads_ok_def count_enter at_phase_def)
  next
    case (down_load i b)
    then show ?thesis using ok one dates [of i "Leaving b"] by (auto simp: threads_ok_def count_enter at_phase_def)
  next
    case (down_store i b n)
    then show ?thesis using ok one dates [of i "Down_loaded b n"] cur [of i "Down_loaded b n"]
      by (auto simp: threads_ok_def count_enter at_phase_def)
  next
    case (main_leaves b)
    then show ?thesis using ok one up_to_date_same [of s' s] by (auto simp: threads_ok_def)
  qed
qed

text \<open>C34: as long as no two updates overlap the counters are right: \<open>active_workers\<close> is the number of
  workers between their start and their end, and \<open>worker_fails\<close>, the program's exit status, is
  minus the number of workers that failed.\<close>

theorem counters_count:
  assumes "serial_run n s"
  shows "t_active s = count_of on_duty s \<and> t_fails s = - count_of went_wrong s"
proof -
  have "threads_ok (threads_start n)"
    by (auto simp: threads_ok_def threads_start_def count_of_def one_at_a_time_def nth_Cons' filter_replicate)
  with assms have "threads_ok s"
    by (induction rule: serial_run.induct) (auto intro: threads_ok_step)
  then show ?thesis by (simp add: threads_ok_def)
qed

section \<open>What goes wrong\<close>

text \<open>\<open>main\<close> can leave, and destroy the application, while another worker has not started: with
  two workers or more, if the first one loses its clients before the second one has counted
  itself in, the count is zero. No updates overlap in that run.\<close>

theorem main_leaves_early:
  assumes "2 \<le> n"
  shows "\<exists>s. serial_run n s \<and> t_main_left s \<and> at_phase s 1 Idle"
proof -
  let ?s0 = "threads_start n"
  let ?s1 = "enter 0 (Leaving False) ?s0"
  let ?s2 = "enter 0 (Down_loaded False 1) ?s1"
  let ?s3 = "enter 0 (Ended False) (?s2\<lparr>t_active := 0\<rparr>)"
  let ?s4 = "?s3\<lparr>t_main_left := True\<rparr>"
  have p: "at_phase ?s0 0 Serving" "at_phase ?s1 0 (Leaving False)" "at_phase ?s2 0 (Down_loaded False 1)"
    "at_phase ?s3 0 (Ended False)" "at_phase ?s4 1 Idle"
    using assms by (simp_all add: at_phase_def threads_start_def enter_def)
  have one: "one_at_a_time ?s1" "one_at_a_time ?s2" "one_at_a_time ?s3" "one_at_a_time ?s4"
    by (simp_all add: one_at_a_time_def enter_def threads_start_def filter_replicate)
  have "serial_run n ?s1" by (rule serial_step [OF serial_start finish [OF p(1)] one(1)])
  then have "serial_run n ?s2"
    using serial_step [OF _ down_load [OF p(2)]] one(2) by (simp add: threads_start_def)
  then have "serial_run n ?s3" using serial_step [OF _ down_store [OF p(3)]] one(3) by simp
  then have "serial_run n ?s4" using serial_step [OF _ main_leaves [OF p(4)]] one(4) by simp
  then show ?thesis using p(5) by (intro exI [of _ ?s4]) simp
qed

theorem main_leaves_early_witness:
  "\<exists>s. serial_run 2 s \<and> t_main_left s \<and> at_phase s 1 Idle"
  by (rule main_leaves_early) simp

text \<open>C35: the updates can overlap, and then one is lost: two workers can both have ended with the
  count still at one. \<open>main\<close> spins for ever: no thread can take a step.\<close>

theorem lost_update_hangs:
  "\<exists>s. thread_run 2 s \<and> t_phase s = [Ended False, Ended False] \<and> t_active s = 1 \<and> \<not> t_main_left s \<and>
     \<not> (\<exists>s'. thread_step s s')"
proof -
  define st where "st = (\<lambda>a p. \<lparr>t_active = a, t_fails = 0, t_phase = p, t_main_left = False\<rparr>)"
  note defs = st_def at_phase_def enter_def
  have step: "thread_run 2 s'" if "thread_run 2 s" "thread_step s t" "s' = t" for s s' t
    using that run_step by simp
  have "thread_run 2 (st 1 [Serving, Idle])"
    using run_start [of 2] by (simp add: threads_start_def st_def)
  then have "thread_run 2 (st 1 [Serving, Up_loaded 1])"
    by (rule step [OF _ up_load [of _ 1]]) (simp_all add: defs)
  then have "thread_run 2 (st 1 [Leaving False, Up_loaded 1])"
    by (rule step [OF _ finish [of _ 0]]) (simp_all add: defs)
  then have "thread_run 2 (st 1 [Down_loaded False 1, Up_loaded 1])"
    by (rule step [OF _ down_load [of _ 0 False]]) (simp_all add: defs)
  then have "thread_run 2 (st 0 [Ended False, Up_loaded 1])"
    by (rule step [OF _ down_store [of _ 0 False 1]]) (simp_all add: defs)
  then have "thread_run 2 (st 2 [Ended False, Serving])"
    by (rule step [OF _ up_store [of _ 1 1]]) (simp_all add: defs)
  then have "thread_run 2 (st 2 [Ended False, Leaving False])"
    by (rule step [OF _ finish [of _ 1]]) (simp_all add: defs)
  then have "thread_run 2 (st 2 [Ended False, Down_loaded False 2])"
    by (rule step [OF _ down_load [of _ 1 False]]) (simp_all add: defs)
  then have r: "thread_run 2 (st 1 [Ended False, Ended False])"
    by (rule step [OF _ down_store [of _ 1 False 2]]) (simp_all add: defs)
  have "\<not> thread_step (st 1 [Ended False, Ended False]) s'" for s'
    by (auto elim!: thread_stepE simp: st_def at_phase_def nth_Cons' less_Suc_eq split: if_splits)
  with r show ?thesis by (intro exI [of _ "st 1 [Ended False, Ended False]"]) (simp add: st_def)
qed

theorem counters_count_witness:
  "(let s = enter 0 (Leaving False) (threads_start 3)
    in t_active s = count_of on_duty s \<and> count_of on_duty s = 1)"
proof -
  have "at_phase (threads_start 3) 0 Serving" by (simp add: at_phase_def threads_start_def)
  then have "serial_run 3 (enter 0 (Leaving False) (threads_start 3))"
    by (rule serial_step [OF serial_start finish])
      (simp add: one_at_a_time_def enter_def threads_start_def filter_replicate)
  from counters_count [OF this] show ?thesis by (simp add: threads_start_def)
qed

end
