(* ===== verification/FpMain.thy ===== *)
theory FpMain
  imports CText
begin

text \<open>
  The fast-path socket program (\<open>src/src/fp-sock\<close>): its command line (\<open>parse_args\<close>), signal
  handlers and performance thread (\<open>utils.c\<close>), and \<open>main\<close> (\<open>main.c\<close>) with its labelled exits.

  ODP and OFP are not in the repository. Every call into them that \<open>main\<close> makes is a value of
  \<open>fp_call\<close>: what it returns is a parameter (\<open>fp_env\<close>), and the calls made are kept in order.
\<close>

section \<open>The command line\<close>

text \<open>What \<open>getopt_long\<close> delivers for \<open>+c:hpf:\<close>; \<open>Fp_other\<close> is any other result.\<close>

datatype fp_opt = Fp_c string | Fp_h | Fp_p | Fp_f string | Fp_other

record appl_args =
  core_count :: int
  cli_file :: "string option"
  perf_stat :: int

definition zero_args :: appl_args where
  "zero_args = \<lparr>core_count = 0, cli_file = None, perf_stat = 0\<rparr>"

text \<open>The options in turn; \<open>malloc_ok\<close> says whether there is memory for that many bytes. \<open>None\<close> is
  \<open>EXIT_FAILURE\<close>, after the usage text.\<close>

fun parse_opts :: "(nat \<Rightarrow> bool) \<Rightarrow> fp_opt list \<Rightarrow> appl_args \<Rightarrow> appl_args option" where
  "parse_opts malloc_ok [] a = Some a"
| "parse_opts malloc_ok (Fp_c s # os) a = parse_opts malloc_ok os (a\<lparr>core_count := atoi s\<rparr>)"
| "parse_opts malloc_ok (Fp_h # os) a = None"
| "parse_opts malloc_ok (Fp_p # os) a = parse_opts malloc_ok os (a\<lparr>perf_stat := 1\<rparr>)"
| "parse_opts malloc_ok (Fp_f s # os) a =
     (if length s = 0 then None
      else if \<not> malloc_ok (length s + 1) then None
      else parse_opts malloc_ok os (a\<lparr>cli_file := Some s\<rparr>))"
| "parse_opts malloc_ok (Fp_other # os) a = parse_opts malloc_ok os a"

definition parse_args :: "(nat \<Rightarrow> bool) \<Rightarrow> fp_opt list \<Rightarrow> appl_args option" where
  "parse_args malloc_ok os = parse_opts malloc_ok os zero_args"

section \<open>Signals\<close>

datatype fp_signal = Sig_int | Sig_quit | Sig_term

text \<open>\<open>fill_ok\<close> and \<open>act_ok\<close> say whether \<open>sigfillset\<close> and \<open>sigaction\<close> succeed; the state is the
  signals that stop the processing.\<close>

definition linux_sigaction ::
    "bool \<Rightarrow> (fp_signal \<Rightarrow> bool) \<Rightarrow> fp_signal \<Rightarrow> fp_signal set \<Rightarrow> int \<times> fp_signal set" where
  "linux_sigaction fill_ok act_ok sig h =
     (if \<not> fill_ok then (- 1, h) else if \<not> act_ok sig then (- 1, h) else (0, insert sig h))"

definition ofp_sigactions_set :: "bool \<Rightarrow> (fp_signal \<Rightarrow> bool) \<Rightarrow> fp_signal set \<Rightarrow> int \<times> fp_signal set" where
  "ofp_sigactions_set fill_ok act_ok h =
     (case linux_sigaction fill_ok act_ok Sig_int h of
        (r, h) \<Rightarrow>
          if r \<noteq> 0 then (- 1, h)
          else
            (case linux_sigaction fill_ok act_ok Sig_quit h of
               (r, h) \<Rightarrow>
                 if r \<noteq> 0 then (- 1, h)
                 else
                   (case linux_sigaction fill_ok act_ok Sig_term h of
                      (r, h) \<Rightarrow> if r \<noteq> 0 then (- 1, h) else (0, h))))"

abbreviation (input) EXIT_SUCCESS :: int where "EXIT_SUCCESS \<equiv> 0"
abbreviation (input) EXIT_FAILURE :: int where "EXIT_FAILURE \<equiv> 1"

definition setup_exit :: "bool \<Rightarrow> (fp_signal \<Rightarrow> bool) \<Rightarrow> fp_signal set \<Rightarrow> int \<times> fp_signal set" where
  "setup_exit fill_ok act_ok h =
     (case ofp_sigactions_set fill_ok act_ok h of
        (r, h) \<Rightarrow> (if r \<noteq> 0 then EXIT_FAILURE else EXIT_SUCCESS, h))"

section \<open>The performance thread\<close>

text \<open>Its printed lines: one for each reading of the counter that is positive, as long as there are
  readings; without the local initialisation the thread returns.\<close>

definition perf_client :: "int \<Rightarrow> nat list \<Rightarrow> int option \<times> nat list" where
  "perf_client init_local readings =
     (if init_local \<noteq> 0 then (Some (- 1), []) else (None, filter (\<lambda>p. p > 0) readings))"

section \<open>\<open>main\<close>\<close>

datatype sched_sync = Sync_parallel | Sync_atomic | Sync_ordered | Sync_unknown nat
datatype thread_fn = Dispatcher | Perf_client | Udp_main

text \<open>The calls, with the arguments the program computes; threads are created on a set of cores.\<close>

datatype fp_call =
    Odp_init_global | Odp_init_local | Ofp_init_global_param | Odp_cpumask_to_str
  | Odp_schedule_config | Ofp_init_global | Ofp_init_local
  | Odpthreads_create thread_fn int | Odpthreads_join | Ofp_stop_processing
  | Ofp_start_cli_thread int "string option"
  | Ofp_term_local | Ofp_term_global | Odp_term_local | Odp_term_global

record ofp_param =
  pktin_sched :: bool
  pktout_queue :: bool
  sched :: sched_sync
  linux_core_id :: int

record fp_env =
  call_result :: "fp_call \<Rightarrow> int"
  odp_cpu_count :: int
  odp_cpumask_default_worker :: "int \<Rightarrow> int"
  initial_param :: ofp_param

text \<open>A computation makes calls and ends with the exit status: the log and the status.\<close>

type_synonym fp_run = "fp_call list \<times> int"

abbreviation (input) MAX_WORKERS :: int where "MAX_WORKERS \<equiv> 32"

text \<open>The number of workers asked for.\<close>

definition wanted_workers :: "appl_args \<Rightarrow> int \<Rightarrow> int" where
  "wanted_workers a cpus =
     (let n = (if core_count a \<noteq> 0 then core_count a else if cpus > 1 then cpus - 1 else cpus)
      in if n > MAX_WORKERS then MAX_WORKERS else n)"

definition fix_param :: "ofp_param \<Rightarrow> ofp_param" where
  "fix_param p =
     (let p = p\<lparr>pktin_sched := True\<rparr>
      in case sched p of
           Sync_unknown n \<Rightarrow> p\<lparr>sched := Sync_atomic\<rparr>
         | Sync_parallel \<Rightarrow> p
         | Sync_atomic \<Rightarrow> p
         | Sync_ordered \<Rightarrow> p)"

text \<open>The exits \<open>EXIT1\<close> and \<open>EXIT0\<close>: failures are only reported.\<close>

definition exit1 :: fp_run where
  "exit1 = ([Ofp_term_global, Odp_term_local, Odp_term_global], EXIT_SUCCESS)"

definition exit0 :: fp_run where
  "exit0 = (Ofp_term_local # fst exit1, snd exit1)"

definition then_run :: "fp_call list \<Rightarrow> fp_run \<Rightarrow> fp_run" where
  "then_run cs r = (cs @ fst r, snd r)"

definition start_performance :: "int \<Rightarrow> fp_call" where
  "start_performance core = Odpthreads_create Perf_client core"

text \<open>From the creation of the workers on, with the dispatchers on the \<open>n\<close> worker cores.\<close>

definition main_threads :: "fp_env \<Rightarrow> appl_args \<Rightarrow> ofp_param \<Rightarrow> int \<Rightarrow> fp_run" where
  "main_threads E a p n =
     (let create = Odpthreads_create Dispatcher n;
          cli = Ofp_start_cli_thread (linux_core_id p) (cli_file a);
          perf = start_performance (linux_core_id p);
          stop = [Ofp_stop_processing, Odpthreads_join];
          server = Odpthreads_create Udp_main (linux_core_id p)
      in if call_result E create \<noteq> n then then_run (create # stop) exit0
         else if call_result E cli < 0 then then_run (create # cli # stop) exit0
         else if perf_stat a \<noteq> 0 \<and> call_result E perf \<le> 0 then then_run (create # cli # perf # stop) exit0
         else
           then_run (create # cli # (if perf_stat a \<noteq> 0 then [perf] else []) @ [server, Odpthreads_join]) exit0)"

definition main_ofp :: "fp_env \<Rightarrow> appl_args \<Rightarrow> fp_run" where
  "main_ofp E a =
     (let p = initial_param E; n = odp_cpumask_default_worker E (wanted_workers a (odp_cpu_count E))
      in then_run [Ofp_init_global_param, Odp_cpumask_to_str]
        (if call_result E Odp_cpumask_to_str < 0 then ([Odp_term_local, Odp_term_global], EXIT_FAILURE)
         else
           (let p = fix_param p
            in then_run [Odp_schedule_config, Ofp_init_global]
              (if call_result E Ofp_init_global \<noteq> 0 then exit1
               else then_run [Ofp_init_local]
                 (if call_result E Ofp_init_local \<noteq> 0 then exit0 else main_threads E a p n)))))"

definition fp_main :: "fp_env \<Rightarrow> (nat \<Rightarrow> bool) \<Rightarrow> fp_opt list \<Rightarrow> bool \<Rightarrow> (fp_signal \<Rightarrow> bool) \<Rightarrow> fp_run" where
  "fp_main E malloc_ok os fill_ok act_ok =
     (case parse_args malloc_ok os of
        None \<Rightarrow> ([], EXIT_FAILURE)
      | Some a \<Rightarrow>
          if fst (setup_exit fill_ok act_ok {}) \<noteq> EXIT_SUCCESS then ([], EXIT_FAILURE)
          else then_run [Odp_init_global]
            (if call_result E Odp_init_global \<noteq> 0 then ([], EXIT_FAILURE)
             else then_run [Odp_init_local]
               (if call_result E Odp_init_local \<noteq> 0 then ([Odp_term_global], EXIT_FAILURE) else main_ofp E a)))"

section \<open>What the runs of \<open>main\<close> have in common\<close>

text \<open>The calls that end something, and what each of them ends. The program counts the OFP layers as
  up once it has tried to start them, the ODP layers once they report success.\<close>

fun ends :: "fp_call \<Rightarrow> bool" where
  "ends Ofp_term_local = True"
| "ends Ofp_term_global = True"
| "ends Odp_term_local = True"
| "ends Odp_term_global = True"
| "ends c = False"

fun ended_by :: "fp_call \<Rightarrow> fp_call" where
  "ended_by Odp_init_global = Odp_term_global"
| "ended_by Odp_init_local = Odp_term_local"
| "ended_by Ofp_init_global = Ofp_term_global"
| "ended_by Ofp_init_local = Ofp_term_local"
| "ended_by c = c"

fun brought_up :: "fp_env \<Rightarrow> fp_call \<Rightarrow> bool" where
  "brought_up E Odp_init_global = (call_result E Odp_init_global = 0)"
| "brought_up E Odp_init_local = (call_result E Odp_init_local = 0)"
| "brought_up E Ofp_init_global = True"
| "brought_up E Ofp_init_local = True"
| "brought_up E c = False"

text \<open>A run is unwound when what it ends is what it brought up, last first, with nothing after.\<close>

definition unwound :: "fp_env \<Rightarrow> fp_call list \<Rightarrow> bool" where
  "unwound E cs \<longleftrightarrow>
     filter ends cs = rev (map ended_by (filter (brought_up E) cs))
     \<and> dropWhile (\<lambda>c. \<not> ends c) cs = filter ends cs"

lemmas fp_runs = then_run_def exit0_def exit1_def Let_def start_performance_def

lemma main_threads_shape:
  "\<exists>cs. main_threads E a p n = (cs @ [Ofp_term_local, Ofp_term_global, Odp_term_local, Odp_term_global], EXIT_SUCCESS)
     \<and> filter ends cs = [] \<and> filter (brought_up E) cs = []"
  by (simp add: main_threads_def fp_runs)

lemma filter_none: "filter P cs = [] \<Longrightarrow> dropWhile (\<lambda>c. \<not> P c) (cs @ ds) = dropWhile (\<lambda>c. \<not> P c) ds"
  by (induction cs) (auto split: if_splits)

text \<open>The run of \<open>main\<close> from \<open>ofp_init_global_param\<close> on ends OFP's layers and ODP's.\<close>

lemma main_ofp_unwound:
  assumes "call_result E Odp_init_global = 0" "call_result E Odp_init_local = 0"
  shows "unwound E (Odp_init_global # Odp_init_local # fst (main_ofp E a))"
proof -
  define n where "n = odp_cpumask_default_worker E (wanted_workers a (odp_cpu_count E))"
  obtain cs where cs: "main_threads E a (fix_param (initial_param E)) n
      = (cs @ [Ofp_term_local, Ofp_term_global, Odp_term_local, Odp_term_global], EXIT_SUCCESS)"
    "filter ends cs = []" "filter (brought_up E) cs = []"
    using main_threads_shape by blast
  show ?thesis
    using assms cs by (simp add: main_ofp_def n_def [symmetric] fp_runs unwound_def filter_none)
qed


lemma main_ofp_status:
  "snd (main_ofp E a) = EXIT_SUCCESS \<longleftrightarrow> \<not> call_result E Odp_cpumask_to_str < 0"
  by (simp add: main_ofp_def main_threads_def fp_runs)

text \<open>The exit status says whether the arguments, the signal handlers, ODP and the core mask were fine: it
  is a success whatever becomes of the OFP layer, the workers and the threads started after them.\<close>

theorem fp_exit_status:
  "snd (fp_main E malloc_ok os fill_ok act_ok) = EXIT_SUCCESS \<longleftrightarrow>
     parse_args malloc_ok os \<noteq> None \<and> fst (setup_exit fill_ok act_ok {}) = EXIT_SUCCESS
     \<and> call_result E Odp_init_global = 0 \<and> call_result E Odp_init_local = 0
     \<and> \<not> call_result E Odp_cpumask_to_str < 0"
  by (simp add: fp_main_def then_run_def main_ofp_status split: option.splits)

text \<open>What has to go well for the server to be started.\<close>

definition startup_ok :: "fp_env \<Rightarrow> appl_args \<Rightarrow> bool" where
  "startup_ok E a \<longleftrightarrow>
     call_result E Odp_init_global = 0 \<and> call_result E Odp_init_local = 0 \<and> \<not> call_result E Odp_cpumask_to_str < 0
     \<and> call_result E Ofp_init_global = 0 \<and> call_result E Ofp_init_local = 0
     \<and> (let p = fix_param (initial_param E); n = odp_cpumask_default_worker E (wanted_workers a (odp_cpu_count E))
        in call_result E (Odpthreads_create Dispatcher n) = n
           \<and> \<not> call_result E (Ofp_start_cli_thread (linux_core_id p) (cli_file a)) < 0
           \<and> (perf_stat a = 0 \<or> call_result E (start_performance (linux_core_id p)) > 0))"

text \<open>The dispatchers are created, the server is, they are joined once, they are stopped.\<close>

definition workers_created :: "fp_call list \<Rightarrow> bool" where
  "workers_created cs \<longleftrightarrow> (\<exists>n. Odpthreads_create Dispatcher n \<in> set cs)"

definition server_created :: "fp_call list \<Rightarrow> bool" where
  "server_created cs \<longleftrightarrow> (\<exists>c. Odpthreads_create Udp_main c \<in> set cs)"

definition workers_handled :: "fp_call list \<Rightarrow> bool" where
  "workers_handled cs \<longleftrightarrow>
     count_list cs Odpthreads_join = (if workers_created cs then 1 else 0)
     \<and> (Ofp_stop_processing \<in> set cs \<longleftrightarrow> workers_created cs \<and> \<not> server_created cs)"

lemmas fp_calls = workers_handled_def workers_created_def server_created_def

lemma main_ofp_workers:
  assumes "call_result E Odp_init_global = 0" "call_result E Odp_init_local = 0"
  shows "server_created (Odp_init_global # Odp_init_local # fst (main_ofp E a)) \<longleftrightarrow> startup_ok E a"
    "workers_handled (Odp_init_global # Odp_init_local # fst (main_ofp E a))"
  using assms by (auto simp: main_ofp_def main_threads_def fp_runs fp_calls startup_ok_def)


section \<open>The number of workers and the signals\<close>

text \<open>The table of threads has room for what is asked for, but a negative count passes as it is.\<close>

lemma wanted_workers_bound: "wanted_workers a cpus \<le> MAX_WORKERS"
  by (simp add: wanted_workers_def Let_def)

lemma negative_count_passed: "core_count a < 0 \<Longrightarrow> wanted_workers a cpus = core_count a"
  by (simp add: wanted_workers_def Let_def)

lemma count_option: "parse_args malloc_ok [Fp_c (dec n)] = Some (zero_args\<lparr>core_count := int n\<rparr>)"
  by (simp add: parse_args_def atoi_dec)

text \<open>The handlers are installed in turn, and a failure leaves the earlier ones in place.\<close>

lemma signals_installed:
  "setup_exit fill_ok act_ok {} =
     (if fill_ok \<and> act_ok Sig_int \<and> act_ok Sig_quit \<and> act_ok Sig_term then (EXIT_SUCCESS, {Sig_int, Sig_quit, Sig_term})
      else (EXIT_FAILURE, set (if fill_ok then takeWhile act_ok [Sig_int, Sig_quit, Sig_term] else [])))"
  by (auto simp: setup_exit_def ofp_sigactions_set_def linux_sigaction_def)

end
