(* ===== verification/Spec2Isabelle.thy ===== *)
theory Spec2Isabelle
  imports Prelude CText Status Plugins FpServers UdpUri UdpState UdpMsgs UdpHandlers UdpData UdpMain
    VtsPool VtsConn VtsTest VtsWorker VtsLoop VtsDemo VtsRefine VtsEcho VtsMain VtsThreads FpMain
begin

text \<open>
  A model of the C programs of dpdk-perf. Each theory opens with what it models.
\<close>

end
